theory Spec2Isabelle
  imports Main "HOL-Library.Sublist"
begin

section \<open>The directory tree and the output streams\<close>

text \<open>
  The two scripts \<^verbatim>\<open>merge_code.py\<close> (content only) and \<^verbatim>\<open>mergecode.py\<close> (structure listing
  followed by content) walk the current working directory with \<^verbatim>\<open>os.walk\<close> and write one
  text document.  Strings are byte strings (\<^typ>\<open>string\<close>); the platform is POSIX, so
  \<^verbatim>\<open>os.sep\<close> is \<^verbatim>\<open>/\<close> and \<^verbatim>\<open>os.path\<close> is \<^verbatim>\<open>posixpath\<close>.

  A file is what \<^verbatim>\<open>open(...).read()\<close> gives for it: its decoded text, or the exception
  raised on the way (its message).  A directory is the list of its entries in the order
  \<^verbatim>\<open>os.scandir\<close> lists them.  Every directory can be listed and no entry is a symbolic
  link.  The tree is the one the walk sees, so it holds the output file itself, which
  \<^verbatim>\<open>open(OUTPUT_FILE, "w")\<close> creates before the walk starts.

  The file system encoding is UTF-8.  A name is the byte string the directory holds;
  \<^verbatim>\<open>os.walk\<close> decodes it with the error handler \<^verbatim>\<open>surrogateescape\<close>, so a name that is
  well-formed UTF-8 is the text it encodes, and every byte of a name that is part of no
  well-formed sequence becomes a lone surrogate.  The text of a file is decoded with
  \<^verbatim>\<open>errors="ignore"\<close>: it holds no surrogate, and \<open>Readable\<close> carries its UTF-8 encoding.
  The standard output is taken to be a UTF-8 stream as well: the lines the scripts print
  hold no surrogate (a relative path is printed only after it has been written to the
  output file), so \<^verbatim>\<open>print\<close> accepts every one of them.
\<close>

datatype fcontent = Readable string | Unreadable string

datatype entry = FileE string fcontent | DirE string "entry list"

datatype py_error = ValueError string | UnicodeEncodeError string

record io =
  outfile :: string
  stdout :: "string list"

definition io0 :: io where
  "io0 = \<lparr>outfile = [], stdout = []\<rparr>"

text \<open>
  Well-formed UTF-8 (The Unicode Standard, table 3-7), which is what the decoder of
  CPython accepts: a byte below \<^verbatim>\<open>0x80\<close>, or a lead byte followed by the continuation bytes
  its range asks for, with no overlong form, no surrogate and nothing above \<^verbatim>\<open>U+10FFFF\<close>.
\<close>

definition byte :: "char \<Rightarrow> nat" where
  "byte c = of_char c"

definition continuation :: "char \<Rightarrow> bool" where
  "continuation c = (0x80 \<le> byte c \<and> byte c \<le> 0xBF)"

fun is_utf8 :: "string \<Rightarrow> bool" where
  "is_utf8 [] = True"
| "is_utf8 (c # cs) =
     (if byte c < 0x80 then is_utf8 cs
      else if 0xC2 \<le> byte c \<and> byte c \<le> 0xDF then
        (case cs of
           c1 # r \<Rightarrow> continuation c1 \<and> is_utf8 r
         | _ \<Rightarrow> False)
      else if 0xE0 \<le> byte c \<and> byte c \<le> 0xEF then
        (case cs of
           c1 # c2 # r \<Rightarrow>
             (if byte c = 0xE0 then 0xA0 \<le> byte c1 \<and> byte c1 \<le> 0xBF
              else if byte c = 0xED then 0x80 \<le> byte c1 \<and> byte c1 \<le> 0x9F
              else continuation c1) \<and>
             continuation c2 \<and> is_utf8 r
         | _ \<Rightarrow> False)
      else if 0xF0 \<le> byte c \<and> byte c \<le> 0xF4 then
        (case cs of
           c1 # c2 # c3 # r \<Rightarrow>
             (if byte c = 0xF0 then 0x90 \<le> byte c1 \<and> byte c1 \<le> 0xBF
              else if byte c = 0xF4 then 0x80 \<le> byte c1 \<and> byte c1 \<le> 0x8F
              else continuation c1) \<and>
             continuation c2 \<and> continuation c3 \<and> is_utf8 r
         | _ \<Rightarrow> False)
      else False)"

text \<open>
  The output file is opened with \<^verbatim>\<open>encoding="utf-8"\<close> and the strict error handler.
  \<^verbatim>\<open>outfile.write(txt)\<close> encodes \<open>txt\<close> first: a text with a surrogate, that is a byte
  string that is not well-formed UTF-8, raises \<^verbatim>\<open>UnicodeEncodeError\<close> and nothing of it is
  written.  An exception is kept with the state it leaves: what the output file holds when
  the \<^verbatim>\<open>with\<close> statement closes it, and the lines printed so far.
\<close>

type_synonym result = "(py_error \<times> io) + io"

definition outfile_append :: "io \<Rightarrow> string \<Rightarrow> io" where
  "outfile_append s txt = s\<lparr>outfile := outfile s @ txt\<rparr>"

definition outfile_write :: "io \<Rightarrow> string \<Rightarrow> result" where
  "outfile_write s txt =
     (if is_utf8 txt then Inr (outfile_append s txt) else Inl (UnicodeEncodeError txt, s))"

definition print_line :: "io \<Rightarrow> string \<Rightarrow> io" where
  "print_line s line = s\<lparr>stdout := stdout s @ [line]\<rparr>"

text \<open>A \<^verbatim>\<open>for\<close> loop whose body may raise: the first exception ends the loop.\<close>

fun for_each :: "('a \<Rightarrow> 's \<Rightarrow> 'e + 's) \<Rightarrow> 'a list \<Rightarrow> 's \<Rightarrow> 'e + 's" where
  "for_each body [] s = Inr s"
| "for_each body (x # xs) s =
     (case body x s of Inl e \<Rightarrow> Inl e | Inr s' \<Rightarrow> for_each body xs s')"

section \<open>The string and path functions of the standard library\<close>

definition startswith :: "string \<Rightarrow> string \<Rightarrow> bool" where
  "startswith s p = (take (length p) s = p)"

definition endswith :: "string \<Rightarrow> string \<Rightarrow> bool" where
  "endswith s p = (length p \<le> length s \<and> drop (length s - length p) s = p)"

text \<open>\<^verbatim>\<open>s.rfind(c)\<close> for a one-character \<^verbatim>\<open>c\<close>: the highest index of \<^verbatim>\<open>c\<close>, or -1.\<close>

definition rfind :: "string \<Rightarrow> char \<Rightarrow> int" where
  "rfind s c =
     (if c \<in> set s then int (length s) - 1 - int (length (takeWhile (\<lambda>x. x \<noteq> c) (rev s)))
      else - 1)"

text \<open>\<^verbatim>\<open>s.split(c)\<close> for a one-character separator: never the empty list.\<close>

fun str_split :: "string \<Rightarrow> char \<Rightarrow> string list" where
  "str_split [] c = [[]]"
| "str_split (x # xs) c =
     (if x = c then [] # str_split xs c
      else (case str_split xs c of [] \<Rightarrow> [[x]] | w # ws \<Rightarrow> (x # w) # ws))"

text \<open>\<^verbatim>\<open>sep.join(xs)\<close>.\<close>

fun str_join :: "string \<Rightarrow> string list \<Rightarrow> string" where
  "str_join sep [] = []"
| "str_join sep [x] = x"
| "str_join sep (x # y # ys) = x @ sep @ str_join sep (y # ys)"

text \<open>
  \<^verbatim>\<open>s.replace(old, new)\<close>: every occurrence of \<^verbatim>\<open>old\<close>, found from the left and not
  overlapping, becomes \<^verbatim>\<open>new\<close>; an empty \<^verbatim>\<open>old\<close> matches before every character and at
  the end.
\<close>

function str_replace :: "string \<Rightarrow> string \<Rightarrow> string \<Rightarrow> string" where
  "str_replace s old new =
     (if old = [] then new @ concat (map (\<lambda>c. c # new) s)
      else if s = [] then []
      else if take (length old) s = old then new @ str_replace (drop (length old) s) old new
      else hd s # str_replace (tl s) old new)"
  by pat_completeness auto
termination
  by (relation "measure (\<lambda>(s, old, new). length s)") auto

declare str_replace.simps [simp del]

text \<open>\<^verbatim>\<open>s.count(c)\<close> for a one-character \<^verbatim>\<open>c\<close>.\<close>

definition str_count :: "string \<Rightarrow> char \<Rightarrow> nat" where
  "str_count s c = length (filter (\<lambda>x. x = c) s)"

text \<open>\<^verbatim>\<open>posixpath.join(a, *p)\<close>: one step of its loop, and the loop.\<close>

definition join_step :: "string \<Rightarrow> string \<Rightarrow> string" where
  "join_step path b =
     (if startswith b ''/'' then b
      else if path = [] \<or> endswith path ''/'' then path @ b
      else path @ ''/'' @ b)"

definition os_path_join :: "string \<Rightarrow> string list \<Rightarrow> string" where
  "os_path_join a p = foldl join_step a p"

definition basename :: "string \<Rightarrow> string" where
  "basename p = drop (nat (rfind p CHR ''/'' + 1)) p"

definition isabs :: "string \<Rightarrow> bool" where
  "isabs s = startswith s ''/''"

text \<open>
  \<^verbatim>\<open>genericpath._splitext(p, '/', None, '.')\<close>.  The loop skips the dots the last
  component starts with; it returns the split at the first other character it meets
  before the last dot, and falls through when there is none.
\<close>

function splitext_loop :: "string \<Rightarrow> nat \<Rightarrow> nat \<Rightarrow> (string \<times> string) option" where
  "splitext_loop p filenameIndex dotIndex =
     (if filenameIndex < dotIndex then
        (if take 1 (drop filenameIndex p) \<noteq> ''.'' then Some (take dotIndex p, drop dotIndex p)
         else splitext_loop p (filenameIndex + 1) dotIndex)
      else None)"
  by pat_completeness auto
termination
  by (relation "measure (\<lambda>(p, filenameIndex, dotIndex). dotIndex - filenameIndex)") auto

declare splitext_loop.simps [simp del]

definition splitext :: "string \<Rightarrow> string \<times> string" where
  "splitext p =
     (let sepIndex = rfind p CHR ''/'';
          dotIndex = rfind p CHR ''.''
      in if dotIndex > sepIndex then
           (case splitext_loop p (nat (sepIndex + 1)) (nat dotIndex) of
              Some r \<Rightarrow> r
            | None \<Rightarrow> (p, []))
         else (p, []))"

text \<open>\<^verbatim>\<open>posixpath.normpath\<close>: the body of its loop over the components, and the function.\<close>

definition normpath_step :: "nat \<Rightarrow> string list \<Rightarrow> string \<Rightarrow> string list" where
  "normpath_step initial_slashes new_comps c =
     (if c = [] \<or> c = ''.'' then new_comps
      else if c \<noteq> ''..'' \<or> (initial_slashes = 0 \<and> new_comps = [])
                \<or> (new_comps \<noteq> [] \<and> last new_comps = ''..'')
        then new_comps @ [c]
      else if new_comps \<noteq> [] then butlast new_comps
      else new_comps)"

definition normpath :: "string \<Rightarrow> string" where
  "normpath path =
     (if path = [] then ''.''
      else
        let initial_slashes =
              (if startswith path ''/''
               then (if startswith path ''//'' \<and> \<not> startswith path ''///'' then 2 else 1)
               else 0);
            comps = foldl (normpath_step initial_slashes) [] (str_split path CHR ''/'');
            path' = replicate initial_slashes CHR ''/'' @ str_join ''/'' comps
        in if path' = [] then ''.'' else path')"

text \<open>\<^verbatim>\<open>posixpath.abspath\<close>, with the working directory \<^verbatim>\<open>os.getcwd()\<close> as an argument.\<close>

definition abspath :: "string \<Rightarrow> string \<Rightarrow> string" where
  "abspath cwd path = normpath (if \<not> isabs path then os_path_join cwd [path] else path)"

text \<open>
  \<^verbatim>\<open>posixpath.relpath(path, start)\<close>, with the working directory as first argument, for
  the two calls of \<^verbatim>\<open>abspath\<close>.  An empty path raises \<^verbatim>\<open>ValueError\<close>.  \<^verbatim>\<open>commonprefix\<close> of
  two component lists is their longest common prefix.
\<close>

definition relpath :: "string \<Rightarrow> string \<Rightarrow> string \<Rightarrow> py_error + string" where
  "relpath cwd path start =
     (if path = [] then Inl (ValueError ''no path specified'')
      else
        let start_list = filter (\<lambda>x. x \<noteq> []) (str_split (abspath cwd start) CHR ''/'');
            path_list = filter (\<lambda>x. x \<noteq> []) (str_split (abspath cwd path) CHR ''/'');
            i = length (longest_common_prefix start_list path_list);
            rel_list = replicate (length start_list - i) ''..'' @ drop i path_list
        in if rel_list = [] then Inr ''.''
           else Inr (os_path_join (hd rel_list) (tl rel_list)))"

subsection \<open>\<^verbatim>\<open>os.walk\<close>, top down\<close>

text \<open>
  One directory visited: its path, the names of its subdirectories and the files in it,
  each with what reading it will give.  The caller may replace the list of subdirectory
  names before the walk goes on: \<open>prune\<close> is what the caller does to it.  The walk
  then descends into the names left, in order, looking each one up in the directory; a
  name that is no subdirectory cannot be listed and is passed over.
\<close>

type_synonym walk_item = "string \<times> string list \<times> (string \<times> fcontent) list"

fun dirs_of :: "entry list \<Rightarrow> string list" where
  "dirs_of [] = []"
| "dirs_of (FileE n c # es) = dirs_of es"
| "dirs_of (DirE d sub # es) = d # dirs_of es"

fun nondirs_of :: "entry list \<Rightarrow> (string \<times> fcontent) list" where
  "nondirs_of [] = []"
| "nondirs_of (FileE n c # es) = (n, c) # nondirs_of es"
| "nondirs_of (DirE d sub # es) = nondirs_of es"

fun lookup_dir :: "entry list \<Rightarrow> string \<Rightarrow> entry list option" where
  "lookup_dir [] d = None"
| "lookup_dir (FileE n c # es) d = lookup_dir es d"
| "lookup_dir (DirE d' sub # es) d = (if d' = d then Some sub else lookup_dir es d)"

lemma lookup_dir_size: "lookup_dir es d = Some sub \<Longrightarrow> size_list size sub < size_list size es"
  by (induction es d rule: lookup_dir.induct) (auto split: if_splits)

function walk :: "(string list \<Rightarrow> string list) \<Rightarrow> string \<Rightarrow> entry list \<Rightarrow> walk_item list" where
  "walk prune top_dir es =
     (let dirs = prune (dirs_of es) in
      (top_dir, dirs, nondirs_of es) #
      concat (map (\<lambda>dirname.
                (case lookup_dir es dirname of
                   None \<Rightarrow> []
                 | Some sub \<Rightarrow> walk prune (os_path_join top_dir [dirname]) sub))
              dirs))"
  by pat_completeness auto
termination
  by (relation "measure (\<lambda>(prune, top_dir, es). size_list size es)") (auto dest: lookup_dir_size)

declare walk.simps [simp del]


section \<open>The configuration both scripts compile in\<close>

definition merge_code_ALLOWED_EXTENSIONS :: "string set" where
  "merge_code_ALLOWED_EXTENSIONS = {''.swift'', ''.h'', ''.m'', ''.c'', ''.cpp''}"

definition mergecode_ALLOWED_EXTENSIONS :: "string set" where
  "mergecode_ALLOWED_EXTENSIONS = {''.swift'', ''.cpp'', ''.xcprivacy'', ''.plist''}"

text \<open>\<^verbatim>\<open>IGNORE_DIRS\<close> and \<^verbatim>\<open>OUTPUT_FILE\<close> have the same value in both scripts.\<close>

definition IGNORE_DIRS :: "string set" where
  "IGNORE_DIRS = {''Pods'', ''.git'', ''DerivedData'', ''Assets.xcassets'', ''Preview Content'',
     ''fastlane'', ''build''}"

definition OUTPUT_FILE :: string where
  "OUTPUT_FILE = ''FullProjectSource.txt''"

text \<open>\<^verbatim>\<open>dirnames[:] = [d for d in dirnames if d not in IGNORE_DIRS]\<close>\<close>

definition prune_ignored :: "string list \<Rightarrow> string list" where
  "prune_ignored dirnames = [d \<leftarrow> dirnames. d \<notin> IGNORE_DIRS]"

definition separator :: string where
  "separator = replicate 50 CHR ''=''"

section \<open>\<^verbatim>\<open>merge_code.py\<close>\<close>

text \<open>
  The body of the loop over \<^verbatim>\<open>filenames\<close>.  \<^verbatim>\<open>relpath\<close> is called outside the
  \<^verbatim>\<open>try\<close>, and the three lines of the header are written before the \<^verbatim>\<open>try\<close>: an exception
  there leaves the loop and ends the run.  A failure of \<^verbatim>\<open>open\<close> or \<^verbatim>\<open>read\<close> is caught and
  printed.  The text read holds no surrogate, so writing it, and the newline after it,
  cannot fail.
\<close>

definition merge_code_file_body :: "string \<Rightarrow> string \<Rightarrow> string \<times> fcontent \<Rightarrow> io \<Rightarrow> result" where
  "merge_code_file_body root_dir dirpath f s =
     (let filename = fst f;
          ext = snd (splitext filename)
      in if ext \<in> merge_code_ALLOWED_EXTENSIONS then
           (let file_path = os_path_join dirpath [filename] in
            case relpath root_dir file_path root_dir of
              Inl e \<Rightarrow> Inl (e, s)
            | Inr relative_path \<Rightarrow>
                (case outfile_write s (''\<newline>'' @ separator @ ''\<newline>'') of
                   Inl x \<Rightarrow> Inl x
                 | Inr s1 \<Rightarrow>
                (case outfile_write s1 (''FILE: '' @ relative_path @ ''\<newline>'') of
                   Inl x \<Rightarrow> Inl x
                 | Inr s2 \<Rightarrow>
                (case outfile_write s2 (separator @ ''\<newline>\<newline>'') of
                   Inl x \<Rightarrow> Inl x
                 | Inr s3 \<Rightarrow>
                     Inr (case snd f of
                            Readable txt \<Rightarrow> outfile_append (outfile_append s3 txt) ''\<newline>''
                          | Unreadable e \<Rightarrow>
                              print_line s3 (''Could not read '' @ relative_path @ '': '' @ e))))))
         else Inr s)"

definition merge_code_success :: string where
  "merge_code_success =
     [CHR 0xE2, CHR 0x9C, CHR 0x85] @ '' Success! Source code combined into: '' @ OUTPUT_FILE"

definition merge_code_merge_files :: "string \<Rightarrow> entry list \<Rightarrow> result" where
  "merge_code_merge_files cwd es =
     (let root_dir = cwd in
      case for_each
             (\<lambda>(dirpath, dirnames, filenames).
                 for_each (merge_code_file_body root_dir dirpath) filenames)
             (walk prune_ignored root_dir es) io0 of
        Inl e \<Rightarrow> Inl e
      | Inr s \<Rightarrow> Inr (print_line s merge_code_success))"

section \<open>\<^verbatim>\<open>mergecode.py\<close>\<close>

text \<open>
  The body of the loop of \<^verbatim>\<open>write_tree_structure\<close> over the walk, and the function.  No
  write of it stands in a \<^verbatim>\<open>try\<close>: a name that cannot be encoded ends the run.
\<close>

definition tree_dir_body :: "string \<Rightarrow> walk_item \<Rightarrow> io \<Rightarrow> result" where
  "tree_dir_body startpath item s =
     (case item of (root, dirs, files) \<Rightarrow>
      let level = str_count (str_replace root startpath []) CHR ''/'';
          indent = replicate (4 * level) CHR '' ''
      in case outfile_write s (indent @ basename root @ ''/\<newline>'') of
           Inl x \<Rightarrow> Inl x
         | Inr s1 \<Rightarrow>
             (let subindent = replicate (4 * (level + 1)) CHR '' ''
              in for_each
                   (\<lambda>f s'.
                      let ext = snd (splitext (fst f)) in
                      if ext \<in> mergecode_ALLOWED_EXTENSIONS
                      then outfile_write s' (subindent @ fst f @ ''\<newline>'')
                      else Inr s')
                   files s1))"

definition write_tree_structure :: "string \<Rightarrow> entry list \<Rightarrow> io \<Rightarrow> result" where
  "write_tree_structure startpath es s =
     (case outfile_write s ''PROJECT STRUCTURE:\<newline>'' of
        Inl x \<Rightarrow> Inl x
      | Inr s1 \<Rightarrow>
     (case outfile_write s1 ''==================\<newline>'' of
        Inl x \<Rightarrow> Inl x
      | Inr s2 \<Rightarrow>
     (case for_each (tree_dir_body startpath) (walk prune_ignored startpath es) s2 of
        Inl x \<Rightarrow> Inl x
      | Inr s3 \<Rightarrow> outfile_write s3 ''\<newline>\<newline>'')))"

text \<open>The body of the loop over \<^verbatim>\<open>filenames\<close>, as in \<^verbatim>\<open>merge_code.py\<close>.\<close>

definition mergecode_file_body :: "string \<Rightarrow> string \<Rightarrow> string \<times> fcontent \<Rightarrow> io \<Rightarrow> result" where
  "mergecode_file_body root_dir dirpath f s =
     (let filename = fst f;
          ext = snd (splitext filename)
      in if ext \<in> mergecode_ALLOWED_EXTENSIONS then
           (let file_path = os_path_join dirpath [filename] in
            case relpath root_dir file_path root_dir of
              Inl e \<Rightarrow> Inl (e, s)
            | Inr relative_path \<Rightarrow>
                (case outfile_write s (separator @ ''\<newline>'') of
                   Inl x \<Rightarrow> Inl x
                 | Inr s1 \<Rightarrow>
                (case outfile_write s1 (''FILE: '' @ relative_path @ ''\<newline>'') of
                   Inl x \<Rightarrow> Inl x
                 | Inr s2 \<Rightarrow>
                (case outfile_write s2 (separator @ ''\<newline>\<newline>'') of
                   Inl x \<Rightarrow> Inl x
                 | Inr s3 \<Rightarrow>
                     Inr (case snd f of
                            Readable txt \<Rightarrow> outfile_append (outfile_append s3 txt) ''\<newline>\<newline>''
                          | Unreadable e \<Rightarrow>
                              print_line s3 (''Could not read '' @ relative_path @ '': '' @ e))))))
         else Inr s)"

definition mergecode_success :: string where
  "mergecode_success =
     [CHR 0xE2, CHR 0x9C, CHR 0x85] @ '' Success! Structure and code combined into: '' @ OUTPUT_FILE"

definition mergecode_merge_files :: "string \<Rightarrow> entry list \<Rightarrow> result" where
  "mergecode_merge_files cwd es =
     (let root_dir = cwd;
          s1 = print_line io0 ''Generating folder structure...''
      in case write_tree_structure root_dir es s1 of
           Inl x \<Rightarrow> Inl x
         | Inr s2 \<Rightarrow>
             (let s3 = print_line s2 ''Merging file contents...''
              in case for_each
                        (\<lambda>(dirpath, dirnames, filenames).
                            for_each (mergecode_file_body root_dir dirpath) filenames)
                        (walk prune_ignored root_dir es) s3 of
                   Inl e \<Rightarrow> Inl e
                 | Inr s \<Rightarrow> Inr (print_line s mergecode_success)))"


section \<open>Well-formed inputs, and the files and blocks of a run\<close>

text \<open>
  A name a POSIX directory can hold: not empty, without \<^verbatim>\<open>/\<close>, and neither \<^verbatim>\<open>.\<close> nor
  \<^verbatim>\<open>..\<close>.  In a well-formed tree every name is such a name and no directory holds a name
  twice.  The working directory is given by its components: \<^verbatim>\<open>os.getcwd()\<close> returns the
  absolute, normalised path \<open>abs_path rc\<close>, which is \<^verbatim>\<open>/\<close> when \<open>rc\<close> is empty.
\<close>

definition valid_name :: "string \<Rightarrow> bool" where
  "valid_name n = (n \<noteq> [] \<and> CHR ''/'' \<notin> set n \<and> n \<noteq> ''.'' \<and> n \<noteq> ''..'')"

fun entry_name :: "entry \<Rightarrow> string" where
  "entry_name (FileE n c) = n"
| "entry_name (DirE d sub) = d"

fun wf_tree :: "entry list \<Rightarrow> bool" where
  "wf_tree [] = True"
| "wf_tree (FileE n c # es) = (valid_name n \<and> n \<notin> set (map entry_name es) \<and> wf_tree es)"
| "wf_tree (DirE d sub # es) =
     (valid_name d \<and> d \<notin> set (map entry_name es) \<and> wf_tree sub \<and> wf_tree es)"

definition wf_root :: "string list \<Rightarrow> bool" where
  "wf_root rc = list_all valid_name rc"

text \<open>
  A name the scripts can write to the output file, and a tree all of whose names are
  well-formed UTF-8.
\<close>

definition writable_name :: "string \<Rightarrow> bool" where
  "writable_name n = (valid_name n \<and> is_utf8 n)"

fun encodable_tree :: "entry list \<Rightarrow> bool" where
  "encodable_tree [] = True"
| "encodable_tree (FileE n c # es) = (is_utf8 n \<and> encodable_tree es)"
| "encodable_tree (DirE d sub # es) = (is_utf8 d \<and> encodable_tree sub \<and> encodable_tree es)"

definition abs_path :: "string list \<Rightarrow> string" where
  "abs_path rc = ''/'' @ str_join ''/'' rc"

text \<open>
  The file a list of components names, from the root of the tree: all components but
  the last name directories, the last one a file.
\<close>

fun lookup_file :: "entry list \<Rightarrow> string \<Rightarrow> fcontent option" where
  "lookup_file [] n = None"
| "lookup_file (FileE n' c # es) n = (if n' = n then Some c else lookup_file es n)"
| "lookup_file (DirE d sub # es) n = lookup_file es n"

fun lookup_path :: "entry list \<Rightarrow> string list \<Rightarrow> fcontent option" where
  "lookup_path es [] = None"
| "lookup_path es [n] = lookup_file es n"
| "lookup_path es (d # n # p) =
     (case lookup_dir es d of None \<Rightarrow> None | Some sub \<Rightarrow> lookup_path sub (n # p))"

text \<open>
  The extension filter as a predicate on the file name, for an allow-set \<open>A\<close>.
\<close>

definition is_included :: "string set \<Rightarrow> string \<Rightarrow> bool" where
  "is_included A filename = (snd (splitext filename) \<in> A)"

text \<open>
  The files a run is expected to write a block for, each with the components of its path
  below the root, in the order of the walk: the files of the directory that pass the
  filter, then those of every subdirectory whose name is not ignored.
\<close>

function included_files :: "string set \<Rightarrow> string list \<Rightarrow> entry list \<Rightarrow> (string list \<times> fcontent) list" where
  "included_files A cs es =
     map (\<lambda>f. (cs @ [fst f], snd f)) (filter (\<lambda>f. is_included A (fst f)) (nondirs_of es)) @
     concat (map (\<lambda>d.
               (case lookup_dir es d of
                  None \<Rightarrow> []
                | Some sub \<Rightarrow> included_files A (cs @ [d]) sub))
             (prune_ignored (dirs_of es)))"
  by pat_completeness auto
termination
  by (relation "measure (\<lambda>(A, cs, es). size_list size es)") (auto dest: lookup_dir_size)

declare included_files.simps [simp del]

text \<open>The tree without the files the filter rejects and without the ignored directories.\<close>

fun strip :: "string set \<Rightarrow> entry list \<Rightarrow> entry list" where
  "strip A [] = []"
| "strip A (FileE n c # es) =
     (if is_included A n then FileE n c # strip A es else strip A es)"
| "strip A (DirE d sub # es) =
     (if d \<in> IGNORE_DIRS then strip A es else DirE d (strip A sub) # strip A es)"

text \<open>
  What is written for one file: the header lines, and the text of the file when it can
  be read.  \<^verbatim>\<open>merge_code.py\<close> starts with a newline and ends the text with one newline,
  \<^verbatim>\<open>mergecode.py\<close> ends the text with two.  A file that cannot be read gets one line on
  the standard output.
\<close>

definition header :: "string \<Rightarrow> string" where
  "header relative_path =
     separator @ ''\<newline>'' @ ''FILE: '' @ relative_path @ ''\<newline>'' @ separator @ ''\<newline>'' @ ''\<newline>''"

definition merge_code_block :: "string list \<times> fcontent \<Rightarrow> string" where
  "merge_code_block f =
     ''\<newline>'' @ header (str_join ''/'' (fst f)) @
     (case snd f of Readable txt \<Rightarrow> txt @ ''\<newline>'' | Unreadable e \<Rightarrow> [])"

definition mergecode_block :: "string list \<times> fcontent \<Rightarrow> string" where
  "mergecode_block f =
     header (str_join ''/'' (fst f)) @
     (case snd f of Readable txt \<Rightarrow> txt @ ''\<newline>\<newline>'' | Unreadable e \<Rightarrow> [])"

definition diagnostic :: "string list \<times> fcontent \<Rightarrow> string list" where
  "diagnostic f =
     (case snd f of
        Readable txt \<Rightarrow> []
      | Unreadable e \<Rightarrow> [''Could not read '' @ str_join ''/'' (fst f) @ '': '' @ e])"

definition emit :: "io \<Rightarrow> string \<Rightarrow> string list \<Rightarrow> io" where
  "emit s txt msgs = \<lparr>outfile = outfile s @ txt, stdout = stdout s @ msgs\<rparr>"

text \<open>
  The extension as the specification words it: the substring from the last dot of the
  file name to its end, the dot included, and the empty string when there is no dot.
\<close>

definition spec_extension :: "string \<Rightarrow> string" where
  "spec_extension filename =
     (if CHR ''.'' \<in> set filename then drop (nat (rfind filename CHR ''.'')) filename else [])"

text \<open>The output document of a run that returns, or the exception that ended the run.\<close>

definition document :: "result \<Rightarrow> py_error + string" where
  "document r = map_sum fst outfile r"

text \<open>
  The scenario of the specification: a root that holds \<^verbatim>\<open>src/main.swift\<close> with content
  \<^verbatim>\<open>A\<close>, \<^verbatim>\<open>Pods/Lib.swift\<close> with content \<^verbatim>\<open>B\<close> and \<^verbatim>\<open>build/out.h\<close> with content \<^verbatim>\<open>C\<close>.
\<close>

definition scenario :: "entry list" where
  "scenario =
     [DirE ''src'' [FileE ''main.swift'' (Readable ''A'')],
      DirE ''Pods'' [FileE ''Lib.swift'' (Readable ''B'')],
      DirE ''build'' [FileE ''out.h'' (Readable ''C'')]]"

text \<open>One item of the walk without the files the filter rejects.\<close>

definition keep_included :: "string set \<Rightarrow> walk_item \<Rightarrow> walk_item" where
  "keep_included A item =
     (case item of (dirpath, dirnames, filenames) \<Rightarrow>
        (dirpath, dirnames, filter (\<lambda>f. is_included A (fst f)) filenames))"

text \<open>
  The directory a list of components names, from the root of the tree; the empty list
  names the root.
\<close>

fun lookup_dirs :: "entry list \<Rightarrow> string list \<Rightarrow> entry list option" where
  "lookup_dirs es [] = Some es"
| "lookup_dirs es (d # p) =
     (case lookup_dir es d of None \<Rightarrow> None | Some sub \<Rightarrow> lookup_dirs sub p)"

text \<open>
  The lines \<^verbatim>\<open>write_tree_structure\<close> writes for one directory of the walk: the line of the
  directory, indented by the level the function computes, and a line for each file of the
  directory that passes the filter, one level deeper.
\<close>

definition dir_level :: "string \<Rightarrow> string \<Rightarrow> nat" where
  "dir_level startpath root = str_count (str_replace root startpath []) CHR ''/''"

definition structure_lines :: "string \<Rightarrow> walk_item \<Rightarrow> string" where
  "structure_lines startpath item =
     (case item of (root, dirs, files) \<Rightarrow>
        replicate (4 * dir_level startpath root) CHR '' '' @ basename root @ ''/\<newline>'' @
        concat (map (\<lambda>f. replicate (4 * (dir_level startpath root + 1)) CHR '' '' @ fst f @ ''\<newline>'')
                    (filter (\<lambda>f. is_included mergecode_ALLOWED_EXTENSIONS (fst f)) files)))"


text \<open>The structure section: its two title lines, the lines of every directory, a blank line.\<close>

definition structure_section :: "string \<Rightarrow> entry list \<Rightarrow> string" where
  "structure_section startpath es =
     ''PROJECT STRUCTURE:\<newline>==================\<newline>'' @
     concat (map (structure_lines startpath) (walk prune_ignored startpath es)) @
     ''\<newline>\<newline>''"

section \<open>Paths of well-formed names\<close>

lemma str_split_ne [simp]: "str_split s c \<noteq> []"
  by (induction s) (auto split: list.splits)

lemma str_split_nosep: "c \<notin> set a \<Longrightarrow> str_split a c = [a]"
  by (induction a) auto

lemma str_split_append: "c \<notin> set a \<Longrightarrow> str_split (a @ c # rest) c = a # str_split rest c"
  by (induction a) auto

lemma str_join_Cons: "str_join sep (x # xs) = x @ concat (map (\<lambda>y. sep @ y) xs)"
  by (induction xs arbitrary: x) auto

lemma str_join_snoc: "xs \<noteq> [] \<Longrightarrow> str_join sep (xs @ [y]) = str_join sep xs @ sep @ y"
  by (cases xs) (auto simp: str_join_Cons)

lemma valid_name_simps:
  "valid_name n \<Longrightarrow> n \<noteq> []"
  "valid_name n \<Longrightarrow> CHR ''/'' \<notin> set n"
  "valid_name n \<Longrightarrow> n \<noteq> ''.''"
  "valid_name n \<Longrightarrow> n \<noteq> ''..''"
  by (auto simp: valid_name_def)

lemma str_split_concat:
  "list_all valid_name (x # xs) \<Longrightarrow>
     str_split (x @ concat (map (\<lambda>y. ''/'' @ y) xs)) CHR ''/'' = x # xs"
proof (induction xs arbitrary: x)
  case Nil
  then show ?case by (simp add: str_split_nosep valid_name_def)
next
  case (Cons y ys)
  then have "CHR ''/'' \<notin> set x" by (simp add: valid_name_def)
  then have "str_split (x @ CHR ''/'' # (y @ concat (map (\<lambda>y. ''/'' @ y) ys))) CHR ''/''
      = x # str_split (y @ concat (map (\<lambda>y. ''/'' @ y) ys)) CHR ''/''"
    by (rule str_split_append)
  moreover have "str_split (y @ concat (map (\<lambda>y. ''/'' @ y) ys)) CHR ''/'' = y # ys"
    using Cons.prems by (intro Cons.IH) simp
  ultimately show ?case by simp
qed

lemma str_split_join:
  "list_all valid_name xs \<Longrightarrow> xs \<noteq> [] \<Longrightarrow> str_split (str_join ''/'' xs) CHR ''/'' = xs"
  by (cases xs) (simp_all only: str_join_Cons str_split_concat list.simps)

lemma str_split_abs_path:
  "list_all valid_name xs \<Longrightarrow>
     filter (\<lambda>x. x \<noteq> []) (str_split (abs_path xs) CHR ''/'') = xs"
proof (cases xs)
  case Nil then show ?thesis by (simp add: abs_path_def)
next
  case (Cons a list)
  assume v: "list_all valid_name xs"
  then have "str_split (str_join ''/'' xs) CHR ''/'' = xs" using Cons by (simp add: str_split_join)
  moreover have "filter (\<lambda>x. x \<noteq> []) xs = xs" using v
    by (induction xs) (auto simp: valid_name_def)
  ultimately show ?thesis by (simp add: abs_path_def)
qed

lemma normpath_fold:
  "list_all valid_name xs \<Longrightarrow> foldl (normpath_step k) acc xs = acc @ xs"
  by (induction xs arbitrary: acc) (auto simp: normpath_step_def valid_name_def)

lemma abs_path_startswith: "list_all valid_name xs \<Longrightarrow>
   startswith (abs_path xs) ''/'' \<and> \<not> startswith (abs_path xs) ''//''"
  by (cases xs; cases "hd xs") (auto simp: abs_path_def startswith_def valid_name_def str_join_Cons)

lemma normpath_abs_path: "list_all valid_name xs \<Longrightarrow> normpath (abs_path xs) = abs_path xs"
proof -
  assume v: "list_all valid_name xs"
  have s: "str_split (abs_path xs) CHR ''/'' = [] # (if xs = [] then [[]] else xs)"
    using v by (auto simp: abs_path_def str_split_join)
  have f: "foldl (normpath_step 1) [] (str_split (abs_path xs) CHR ''/'') = xs"
    using v by (auto simp: s normpath_step_def normpath_fold)
  have ne: "abs_path xs \<noteq> []" by (simp add: abs_path_def)
  show ?thesis
    using abs_path_startswith[OF v] ne f
    by (simp add: normpath_def Let_def) (simp add: abs_path_def)
qed

lemma abspath_abs_path: "list_all valid_name xs \<Longrightarrow> abspath cwd (abs_path xs) = abs_path xs"
  using abs_path_startswith[of xs] by (simp add: abspath_def isabs_def normpath_abs_path)

lemma abs_path_endswith: "list_all valid_name xs \<Longrightarrow> endswith (abs_path xs) ''/'' \<longleftrightarrow> xs = []"
proof (cases xs rule: rev_cases)
  case Nil then show ?thesis by (simp add: abs_path_def endswith_def)
next
  case (snoc ys y)
  assume "list_all valid_name xs"
  then have y: "y \<noteq> []" "CHR ''/'' \<notin> set y" using snoc by (auto simp: valid_name_def)
  then have "last y \<noteq> CHR ''/''" by (metis last_in_set)
  moreover have "abs_path xs = (''/'' @ (if ys = [] then [] else str_join ''/'' ys @ ''/'') @ butlast y) @ [last y]"
    using snoc y by (auto simp: abs_path_def str_join_snoc)
  ultimately show ?thesis using snoc
    unfolding endswith_def by (simp del: append_assoc)
qed

lemma join_abs_path:
  "list_all valid_name xs \<Longrightarrow> valid_name n \<Longrightarrow> os_path_join (abs_path xs) [n] = abs_path (xs @ [n])"
proof -
  assume v: "list_all valid_name xs" and n: "valid_name n"
  have "\<not> startswith n ''/''" using n by (cases n) (auto simp: startswith_def valid_name_def)
  moreover have "abs_path xs \<noteq> []" by (simp add: abs_path_def)
  ultimately show ?thesis using abs_path_endswith[OF v]
    by (cases "xs = []") (auto simp: os_path_join_def join_step_def abs_path_def str_join_snoc)
qed

lemma foldl_join_step:
  "a \<noteq> [] \<Longrightarrow> last a \<noteq> CHR ''/'' \<Longrightarrow> list_all valid_name ys \<Longrightarrow>
     foldl join_step a ys = a @ concat (map (\<lambda>y. ''/'' @ y) ys)"
proof (induction ys arbitrary: a)
  case Nil then show ?case by simp
next
  case (Cons y ys)
  have y: "y \<noteq> []" "CHR ''/'' \<notin> set y" using Cons.prems by (auto simp: valid_name_def)
  then have ly: "last y \<noteq> CHR ''/''" by (metis last_in_set)
  have "\<not> startswith y ''/''" using y by (cases y) (auto simp: startswith_def)
  moreover have "\<not> endswith a ''/''" using Cons.prems(1,2)
    by (cases a rule: rev_cases) (auto simp: endswith_def)
  ultimately have js: "join_step a y = a @ ''/'' @ y" using Cons.prems(1) by (simp add: join_step_def)
  have "foldl join_step (a @ ''/'' @ y) ys = (a @ ''/'' @ y) @ concat (map (\<lambda>y. ''/'' @ y) ys)"
    using Cons.prems y ly by (intro Cons.IH) auto
  then show ?case by (simp add: js)
qed

lemma join_rel_list:
  assumes v: "list_all valid_name ys" and ne: "ys \<noteq> []"
  shows "os_path_join (hd ys) (tl ys) = str_join ''/'' ys"
proof -
  obtain y ys' where ys: "ys = y # ys'" using ne by (cases ys) auto
  have y: "y \<noteq> []" "CHR ''/'' \<notin> set y" using v ys by (auto simp: valid_name_def)
  then have "last y \<noteq> CHR ''/''" by (metis last_in_set)
  then show ?thesis using v y ys
    by (simp add: os_path_join_def foldl_join_step str_join_Cons)
qed

lemma lcp_append: "longest_common_prefix xs (xs @ ys) = xs"
  by (induction xs) auto

lemma relpath_below:
  assumes "list_all valid_name rc" "list_all valid_name ys" "ys \<noteq> []"
  shows "relpath (abs_path rc) (abs_path (rc @ ys)) (abs_path rc) = Inr (str_join ''/'' ys)"
proof -
  have v: "list_all valid_name (rc @ ys)" using assms by simp
  have ne: "abs_path (rc @ ys) \<noteq> []" by (simp add: abs_path_def)
  show ?thesis
    using assms ne
    by (simp add: relpath_def Let_def abspath_abs_path[OF v] abspath_abs_path[OF assms(1)]
        str_split_abs_path[OF v] str_split_abs_path[OF assms(1)] lcp_append join_rel_list)
qed

section \<open>Texts the output file accepts\<close>

lemma is_utf8_1: "byte c < 0x80 \<Longrightarrow> is_utf8 (c # cs) = is_utf8 cs"
  by simp

lemma is_utf8_2:
  "0xC2 \<le> byte c \<Longrightarrow> byte c \<le> 0xDF \<Longrightarrow>
   is_utf8 (c # cs) = (\<exists>c1 r. cs = c1 # r \<and> continuation c1 \<and> is_utf8 r)"
  by (cases cs) simp_all

lemma is_utf8_3:
  "0xE0 \<le> byte c \<Longrightarrow> byte c \<le> 0xEF \<Longrightarrow>
   is_utf8 (c # cs) = (\<exists>c1 c2 r. cs = c1 # c2 # r \<and>
     (if byte c = 0xE0 then 0xA0 \<le> byte c1 \<and> byte c1 \<le> 0xBF
      else if byte c = 0xED then 0x80 \<le> byte c1 \<and> byte c1 \<le> 0x9F
      else continuation c1) \<and> continuation c2 \<and> is_utf8 r)"
  by (cases cs; cases "tl cs") simp_all

lemma is_utf8_4:
  "0xF0 \<le> byte c \<Longrightarrow> byte c \<le> 0xF4 \<Longrightarrow>
   is_utf8 (c # cs) = (\<exists>c1 c2 c3 r. cs = c1 # c2 # c3 # r \<and>
     (if byte c = 0xF0 then 0x90 \<le> byte c1 \<and> byte c1 \<le> 0xBF
      else if byte c = 0xF4 then 0x80 \<le> byte c1 \<and> byte c1 \<le> 0x8F
      else continuation c1) \<and> continuation c2 \<and> continuation c3 \<and> is_utf8 r)"
  by (cases cs; cases "tl cs"; cases "tl (tl cs)") simp_all

lemma is_utf8_5:
  "\<not> byte c < 0x80 \<Longrightarrow> \<not> (0xC2 \<le> byte c \<and> byte c \<le> 0xDF) \<Longrightarrow>
   \<not> (0xE0 \<le> byte c \<and> byte c \<le> 0xEF) \<Longrightarrow> \<not> (0xF0 \<le> byte c \<and> byte c \<le> 0xF4) \<Longrightarrow>
   \<not> is_utf8 (c # cs)"
  by auto

declare is_utf8.simps(2) [simp del]

text \<open>Two texts that can be encoded can be encoded one after the other.\<close>

lemma is_utf8_append: "is_utf8 a \<Longrightarrow> is_utf8 b \<Longrightarrow> is_utf8 (a @ b)"
proof (induction "length a" arbitrary: a rule: less_induct)
  case less
  note b = less.prems(2)
  have IH: "is_utf8 (r @ b)" if "length r < length a" "is_utf8 r" for r
    using less.hyps[OF that b] .
  show ?case
  proof (cases a)
    case Nil
    then show ?thesis using b by simp
  next
    case (Cons c cs)
    have a: "is_utf8 (c # cs)" using less.prems(1) Cons by simp
    consider (one) "byte c < 0x80"
      | (two) "0xC2 \<le> byte c" "byte c \<le> 0xDF"
      | (three) "0xE0 \<le> byte c" "byte c \<le> 0xEF"
      | (four) "0xF0 \<le> byte c" "byte c \<le> 0xF4"
      | (none) "\<not> byte c < 0x80" "\<not> (0xC2 \<le> byte c \<and> byte c \<le> 0xDF)"
          "\<not> (0xE0 \<le> byte c \<and> byte c \<le> 0xEF)" "\<not> (0xF0 \<le> byte c \<and> byte c \<le> 0xF4)"
      by blast
    then show ?thesis
    proof cases
      case one
      have "is_utf8 cs" using a by (simp only: is_utf8_1[OF one])
      then have "is_utf8 (cs @ b)" using IH[of cs] Cons by simp
      then show ?thesis unfolding Cons append_Cons by (simp only: is_utf8_1[OF one])
    next
      case two
      from a obtain c1 r where cs: "cs = c1 # r" "continuation c1" "is_utf8 r"
        unfolding is_utf8_2[OF two] by blast
      have "is_utf8 (r @ b)" using IH[of r] cs Cons by simp
      then show ?thesis unfolding Cons append_Cons is_utf8_2[OF two] using cs by simp
    next
      case three
      from a obtain c1 c2 r where cs: "cs = c1 # c2 # r"
        "if byte c = 0xE0 then 0xA0 \<le> byte c1 \<and> byte c1 \<le> 0xBF
         else if byte c = 0xED then 0x80 \<le> byte c1 \<and> byte c1 \<le> 0x9F
         else continuation c1" "continuation c2" "is_utf8 r"
        unfolding is_utf8_3[OF three] by blast
      have "is_utf8 (r @ b)" using IH[of r] cs Cons by simp
      then show ?thesis unfolding Cons append_Cons is_utf8_3[OF three] using cs by simp
    next
      case four
      from a obtain c1 c2 c3 r where cs: "cs = c1 # c2 # c3 # r"
        "if byte c = 0xF0 then 0x90 \<le> byte c1 \<and> byte c1 \<le> 0xBF
         else if byte c = 0xF4 then 0x80 \<le> byte c1 \<and> byte c1 \<le> 0x8F
         else continuation c1" "continuation c2" "continuation c3" "is_utf8 r"
        unfolding is_utf8_4[OF four] by blast
      have "is_utf8 (r @ b)" using IH[of r] cs Cons by simp
      then show ?thesis unfolding Cons append_Cons is_utf8_4[OF four] using cs by simp
    next
      case none
      then show ?thesis using a is_utf8_5 by blast
    qed
  qed
qed

lemma is_utf8_ascii: "list_all (\<lambda>c. byte c < 0x80) s \<Longrightarrow> is_utf8 s"
  by (induction s) (simp_all add: is_utf8_1)

lemma is_utf8_replicate: "byte c < 0x80 \<Longrightarrow> is_utf8 (replicate n c)"
  by (rule is_utf8_ascii) (simp add: list_all_length)

lemma is_utf8_separator: "is_utf8 separator"
  unfolding separator_def by (rule is_utf8_replicate) (simp add: byte_def)

lemma is_utf8_str_join: "list_all is_utf8 cs \<Longrightarrow> is_utf8 (str_join ''/'' cs)"
proof (induction cs)
  case Nil then show ?case by simp
next
  case (Cons x xs)
  show ?case
  proof (cases xs)
    case Nil then show ?thesis using Cons by simp
  next
    case (Cons y ys)
    have s: "is_utf8 ''/''" by (rule is_utf8_ascii) (simp add: byte_def)
    have "is_utf8 (str_join ''/'' xs)" using Cons.prems Cons.IH by simp
    then have "is_utf8 (''/'' @ str_join ''/'' xs)" using s by (rule is_utf8_append[rotated])
    moreover have "is_utf8 x" using Cons.prems by simp
    ultimately have "is_utf8 (x @ ''/'' @ str_join ''/'' xs)" by (rule is_utf8_append[rotated])
    then show ?thesis using Cons by simp
  qed
qed

text \<open>The base name of a path is what follows its last separator.\<close>

lemma basename_after_sep: "CHR ''/'' \<notin> set b \<Longrightarrow> basename (a @ CHR ''/'' # b) = b"
proof -
  assume b: "CHR ''/'' \<notin> set b"
  have "takeWhile (\<lambda>x. x \<noteq> CHR ''/'') (rev b @ CHR ''/'' # rev a) = rev b"
    using b by (subst takeWhile_append2) auto
  then have "rfind (a @ CHR ''/'' # b) CHR ''/'' = int (length a)"
    by (simp add: rfind_def)
  then show ?thesis by (simp add: basename_def nat_add_distrib)
qed

lemma basename_abs_path: "valid_name d \<Longrightarrow> basename (abs_path (xs @ [d])) = d"
proof -
  assume d: "valid_name d"
  then have n: "CHR ''/'' \<notin> set d" by (simp add: valid_name_def)
  show ?thesis
  proof (cases "xs = []")
    case True
    then show ?thesis using basename_after_sep[OF n, of "[]"] by (simp add: abs_path_def)
  next
    case False
    have "abs_path (xs @ [d]) = (''/'' @ str_join ''/'' xs) @ CHR ''/'' # d"
      unfolding abs_path_def str_join_snoc[OF False] by simp
    then show ?thesis using basename_after_sep[OF n, of "''/'' @ str_join ''/'' xs"] by simp
  qed
qed

lemma encodable_tree_nondirs: "encodable_tree es \<Longrightarrow> f \<in> set (nondirs_of es) \<Longrightarrow> is_utf8 (fst f)"
  by (induction es rule: encodable_tree.induct) auto

lemma encodable_tree_lookup_dir:
  "encodable_tree es \<Longrightarrow> lookup_dir es d = Some sub \<Longrightarrow> encodable_tree sub \<and> is_utf8 d"
  by (induction es rule: encodable_tree.induct) (auto split: if_splits)

section \<open>What the loops write\<close>

lemma emit_emit [simp]: "emit (emit s a m) b n = emit s (a @ b) (m @ n)"
  by (simp add: emit_def)

lemma emit_nil [simp]: "emit s [] [] = s"
  by (simp add: emit_def)

lemma outfile_emit [simp]: "outfile (emit s a m) = outfile s @ a"
  and stdout_emit [simp]: "stdout (emit s a m) = stdout s @ m"
  by (simp_all add: emit_def)

lemma outfile_append_emit: "outfile_append s txt = emit s txt []"
  by (simp add: outfile_append_def emit_def)

lemma outfile_write_emit: "is_utf8 txt \<Longrightarrow> outfile_write s txt = Inr (emit s txt [])"
  by (simp add: outfile_write_def outfile_append_emit)

lemma print_line_emit: "print_line s l = emit s [] [l]"
  by (simp add: print_line_def emit_def)

lemma for_each_append:
  "for_each body (xs @ ys) s =
     (case for_each body xs s of Inl e \<Rightarrow> Inl e | Inr s' \<Rightarrow> for_each body ys s')"
  by (induction xs arbitrary: s) (auto split: sum.splits)

lemma for_each_emit:
  assumes "\<And>x s. x \<in> set xs \<Longrightarrow> body x s = Inr (emit s (out x) (msg x))"
  shows "for_each body xs s = Inr (emit s (concat (map out xs)) (concat (map msg xs)))"
  using assms by (induction xs arbitrary: s) auto

lemma for_each_concat_emit:
  assumes "\<And>d s. d \<in> set ds \<Longrightarrow> for_each body (g d) s = Inr (emit s (out d) (msg d))"
  shows "for_each body (concat (map g ds)) s = Inr (emit s (concat (map out ds)) (concat (map msg ds)))"
  using assms by (induction ds arbitrary: s) (auto simp: for_each_append)

lemma wf_tree_nondirs: "wf_tree es \<Longrightarrow> f \<in> set (nondirs_of es) \<Longrightarrow> valid_name (fst f)"
  by (induction es rule: wf_tree.induct) auto

lemma wf_tree_lookup_dir: "wf_tree es \<Longrightarrow> lookup_dir es d = Some sub \<Longrightarrow> wf_tree sub \<and> valid_name d"
  by (induction es rule: wf_tree.induct) (auto split: if_splits)

lemma dirs_of_lookup_dir: "d \<in> set (dirs_of es) \<Longrightarrow> \<exists>sub. lookup_dir es d = Some sub"
  by (induction es rule: dirs_of.induct) auto

lemma wf_tree_nondirs_writable:
  "wf_tree es \<Longrightarrow> encodable_tree es \<Longrightarrow> f \<in> set (nondirs_of es) \<Longrightarrow> writable_name (fst f)"
  using wf_tree_nondirs encodable_tree_nondirs by (simp add: writable_name_def)

lemma wf_tree_lookup_dir_writable:
  "wf_tree es \<Longrightarrow> encodable_tree es \<Longrightarrow> lookup_dir es d = Some sub \<Longrightarrow>
     wf_tree sub \<and> encodable_tree sub \<and> writable_name d"
  using wf_tree_lookup_dir encodable_tree_lookup_dir by (simp add: writable_name_def)

lemma writable_nameD:
  "writable_name n \<Longrightarrow> valid_name n"
  "writable_name n \<Longrightarrow> is_utf8 n"
  by (simp_all add: writable_name_def)

lemma list_all_writableD:
  "list_all writable_name cs \<Longrightarrow> list_all valid_name cs"
  "list_all writable_name cs \<Longrightarrow> list_all is_utf8 cs"
  by (induction cs) (auto simp: writable_name_def)

lemma is_utf8_header:
  "is_utf8 (''\<newline>'' @ separator @ ''\<newline>'')"
  "is_utf8 (separator @ ''\<newline>'')"
  "is_utf8 (separator @ ''\<newline>\<newline>'')"
  "list_all is_utf8 p \<Longrightarrow> is_utf8 (''FILE: '' @ str_join ''/'' p @ ''\<newline>'')"
proof -
  have a: "is_utf8 ''\<newline>''" "is_utf8 ''\<newline>\<newline>''" "is_utf8 ''FILE: ''"
    by (rule is_utf8_ascii, simp add: byte_def)+
  show "is_utf8 (''\<newline>'' @ separator @ ''\<newline>'')"
    by (intro is_utf8_append a is_utf8_separator)
  show "is_utf8 (separator @ ''\<newline>'')"
    by (intro is_utf8_append a is_utf8_separator)
  show "is_utf8 (separator @ ''\<newline>\<newline>'')"
    by (intro is_utf8_append a is_utf8_separator)
  show "is_utf8 (''FILE: '' @ str_join ''/'' p @ ''\<newline>'')" if "list_all is_utf8 p"
    by (intro is_utf8_append a is_utf8_str_join that)
qed

lemma merge_code_file_body_eq:
  assumes "list_all valid_name rc" "list_all writable_name cs" "writable_name (fst f)"
  shows "merge_code_file_body (abs_path rc) (abs_path (rc @ cs)) f s =
     Inr (if is_included merge_code_ALLOWED_EXTENSIONS (fst f)
          then emit s (merge_code_block (cs @ [fst f], snd f)) (diagnostic (cs @ [fst f], snd f))
          else s)"
proof -
  have v: "list_all valid_name cs" "valid_name (fst f)"
    using list_all_writableD(1)[OF assms(2)] writable_nameD(1)[OF assms(3)] by simp_all
  have u: "list_all is_utf8 (cs @ [fst f])"
    using list_all_writableD(2)[OF assms(2)] writable_nameD(2)[OF assms(3)] by simp
  have j: "os_path_join (abs_path (rc @ cs)) [fst f] = abs_path (rc @ cs @ [fst f])"
    using assms(1) v join_abs_path[of "rc @ cs" "fst f"] by simp
  have r: "relpath (abs_path rc) (abs_path (rc @ cs @ [fst f])) (abs_path rc) = Inr (str_join ''/'' (cs @ [fst f]))"
    using assms(1) v relpath_below[of rc "cs @ [fst f]"] by simp
  show ?thesis
    using is_utf8_header(1-3) is_utf8_header(4)[OF u]
    by (cases "snd f")
      (simp_all add: merge_code_file_body_def Let_def j r is_included_def outfile_write_def
        outfile_append_emit print_line_emit merge_code_block_def diagnostic_def header_def)
qed

lemma mergecode_file_body_eq:
  assumes "list_all valid_name rc" "list_all writable_name cs" "writable_name (fst f)"
  shows "mergecode_file_body (abs_path rc) (abs_path (rc @ cs)) f s =
     Inr (if is_included mergecode_ALLOWED_EXTENSIONS (fst f)
          then emit s (mergecode_block (cs @ [fst f], snd f)) (diagnostic (cs @ [fst f], snd f))
          else s)"
proof -
  have v: "list_all valid_name cs" "valid_name (fst f)"
    using list_all_writableD(1)[OF assms(2)] writable_nameD(1)[OF assms(3)] by simp_all
  have u: "list_all is_utf8 (cs @ [fst f])"
    using list_all_writableD(2)[OF assms(2)] writable_nameD(2)[OF assms(3)] by simp
  have j: "os_path_join (abs_path (rc @ cs)) [fst f] = abs_path (rc @ cs @ [fst f])"
    using assms(1) v join_abs_path[of "rc @ cs" "fst f"] by simp
  have r: "relpath (abs_path rc) (abs_path (rc @ cs @ [fst f])) (abs_path rc) = Inr (str_join ''/'' (cs @ [fst f]))"
    using assms(1) v relpath_below[of rc "cs @ [fst f]"] by simp
  show ?thesis
    using is_utf8_header(1-3) is_utf8_header(4)[OF u]
    by (cases "snd f")
      (simp_all add: mergecode_file_body_def Let_def j r is_included_def outfile_write_def
        outfile_append_emit print_line_emit mergecode_block_def diagnostic_def header_def)
qed

lemma files_loop:
  assumes body: "\<And>f s. writable_name (fst f) \<Longrightarrow>
      body f s = Inr (if is_included A (fst f)
          then emit s (block (cs @ [fst f], snd f)) (diagnostic (cs @ [fst f], snd f)) else s)"
    and v: "\<And>f. f \<in> set fs \<Longrightarrow> writable_name (fst f)"
  shows "for_each body fs s =
     Inr (emit s
       (concat (map block (map (\<lambda>f. (cs @ [fst f], snd f)) (filter (\<lambda>f. is_included A (fst f)) fs))))
       (concat (map diagnostic (map (\<lambda>f. (cs @ [fst f], snd f)) (filter (\<lambda>f. is_included A (fst f)) fs)))))"
  using v
proof (induction fs arbitrary: s)
  case Nil then show ?case by simp
next
  case (Cons f fs)
  have "writable_name (fst f)" using Cons.prems by simp
  then show ?case using Cons by (simp add: body)
qed

lemma concat_map_concat:
  "concat (map f (concat (map g ds))) = concat (map (\<lambda>d. concat (map f (g d))) ds)"
  by (induction ds) auto

lemma walk_loop:
  assumes rc: "list_all valid_name rc"
  shows "(\<And>cs f s. list_all writable_name cs \<Longrightarrow> writable_name (fst f) \<Longrightarrow>
      body (abs_path (rc @ cs)) f s = Inr (if is_included A (fst f)
          then emit s (block (cs @ [fst f], snd f)) (diagnostic (cs @ [fst f], snd f)) else s)) \<Longrightarrow>
     wf_tree es \<Longrightarrow> encodable_tree es \<Longrightarrow> list_all writable_name cs \<Longrightarrow>
     for_each (\<lambda>(dirpath, dirnames, filenames). for_each (body dirpath) filenames)
       (walk prune_ignored (abs_path (rc @ cs)) es) s =
     Inr (emit s (concat (map block (included_files A cs es)))
                 (concat (map diagnostic (included_files A cs es))))"
proof (induction A cs es arbitrary: s rule: included_files.induct)
  case (1 A cs es)
  note body = 1(2) and wf = 1(3) and enc = 1(4) and cs = 1(5)
  let ?F = "\<lambda>(dirpath, dirnames, filenames). for_each (body dirpath) filenames"
  let ?here = "map (\<lambda>f. (cs @ [fst f], snd f)) (filter (\<lambda>f. is_included A (fst f)) (nondirs_of es))"
  let ?sub = "\<lambda>d. case lookup_dir es d of None \<Rightarrow> [] | Some sub \<Rightarrow> included_files A (cs @ [d]) sub"
  let ?w = "\<lambda>d. case lookup_dir es d of None \<Rightarrow> [] | Some sub \<Rightarrow> walk prune_ignored (os_path_join (abs_path (rc @ cs)) [d]) sub"
  have here: "for_each (body (abs_path (rc @ cs))) (nondirs_of es) s =
      Inr (emit s (concat (map block ?here)) (concat (map diagnostic ?here)))" for s
  proof (rule files_loop)
    show "body (abs_path (rc @ cs)) f s = Inr (if is_included A (fst f)
          then emit s (block (cs @ [fst f], snd f)) (diagnostic (cs @ [fst f], snd f)) else s)"
      if "writable_name (fst f)" for f s
      using that cs by (rule body[rotated])
    show "writable_name (fst f)" if "f \<in> set (nondirs_of es)" for f
      using wf enc that by (rule wf_tree_nondirs_writable)
  qed
  have sub: "for_each ?F (?w d) s = Inr (emit s (concat (map block (?sub d))) (concat (map diagnostic (?sub d))))"
    if d: "d \<in> set (prune_ignored (dirs_of es))" for d s
  proof -
    from d have "d \<in> set (dirs_of es)" by (simp add: prune_ignored_def)
    then obtain sub where l: "lookup_dir es d = Some sub" using dirs_of_lookup_dir by blast
    then have w: "wf_tree sub" "encodable_tree sub" "writable_name d"
      using wf enc wf_tree_lookup_dir_writable by blast+
    have vcs: "list_all valid_name cs" "valid_name d"
      using list_all_writableD(1)[OF cs] writable_nameD(1)[OF w(3)] by simp_all
    have j: "os_path_join (abs_path (rc @ cs)) [d] = abs_path (rc @ (cs @ [d]))"
      using join_abs_path[of "rc @ cs" d] rc vcs by simp
    have "for_each ?F (walk prune_ignored (abs_path (rc @ (cs @ [d]))) sub) s =
      Inr (emit s (concat (map block (included_files A (cs @ [d]) sub)))
                 (concat (map diagnostic (included_files A (cs @ [d]) sub))))"
    proof (rule 1(1)[OF d l])
      show "list_all writable_name (cs @ [d])" using cs w by simp
      show "wf_tree sub" by (rule w)
      show "encodable_tree sub" by (rule w)
    qed (rule body)
    then show ?thesis by (simp add: l j)
  qed
  have below: "for_each ?F (concat (map ?w (prune_ignored (dirs_of es)))) s =
     Inr (emit s (concat (map (\<lambda>d. concat (map block (?sub d))) (prune_ignored (dirs_of es))))
           (concat (map (\<lambda>d. concat (map diagnostic (?sub d))) (prune_ignored (dirs_of es)))))" for s
    by (rule for_each_concat_emit) (rule sub)
  have w: "walk prune_ignored (abs_path (rc @ cs)) es =
      (abs_path (rc @ cs), prune_ignored (dirs_of es), nondirs_of es) #
      concat (map ?w (prune_ignored (dirs_of es)))"
    by (subst walk.simps) (simp add: Let_def)
  have inc: "included_files A cs es = ?here @ concat (map ?sub (prune_ignored (dirs_of es)))"
    by (rule included_files.simps)
  show ?case
    unfolding w inc by (simp add: here below concat_map_concat comp_def)
qed

lemma emit_io0 [simp]: "emit io0 a m = \<lparr>outfile = a, stdout = m\<rparr>"
  by (simp add: emit_def io0_def)

section \<open>The extension of a file name\<close>

lemma takeWhile_shorter: "c \<in> set xs \<Longrightarrow> length (takeWhile (\<lambda>x. x \<noteq> c) xs) < length xs"
  by (induction xs) auto

lemma rfind_bounds: "c \<in> set s \<Longrightarrow> 0 \<le> rfind s c \<and> rfind s c < int (length s)"
proof -
  assume c: "c \<in> set s"
  then have "c \<in> set (rev s)" by simp
  then have "length (takeWhile (\<lambda>x. x \<noteq> c) (rev s)) < length (rev s)"
    by (rule takeWhile_shorter)
  then show ?thesis using c by (simp add: rfind_def)
qed

lemma rfind_absent: "c \<notin> set s \<Longrightarrow> rfind s c = - 1"
  by (simp add: rfind_def)

lemma splitext_loop_eq:
  "dotIndex \<le> length p \<Longrightarrow>
     splitext_loop p filenameIndex dotIndex =
       (if list_ex (\<lambda>c. c \<noteq> CHR ''.'') (drop filenameIndex (take dotIndex p))
        then Some (take dotIndex p, drop dotIndex p) else None)"
proof (induction p filenameIndex dotIndex rule: splitext_loop.induct)
  case (1 p filenameIndex dotIndex)
  show ?case
  proof (cases "filenameIndex < dotIndex")
    case False
    then show ?thesis by (subst splitext_loop.simps) simp
  next
    case True
    then have lt: "filenameIndex < length p" using 1(2) by simp
    have t: "take (Suc 0) (drop filenameIndex p) = [p ! filenameIndex]"
      using lt by (simp add: take_Suc_conv_app_nth)
    have "filenameIndex < length (take dotIndex p)" using True 1(2) by simp
    then have "drop filenameIndex (take dotIndex p) =
        take dotIndex p ! filenameIndex # drop (Suc filenameIndex) (take dotIndex p)"
      by (rule Cons_nth_drop_Suc[symmetric])
    then have d: "drop filenameIndex (take dotIndex p) =
        p ! filenameIndex # drop (filenameIndex + 1) (take dotIndex p)"
      using True by simp
    show ?thesis
    proof (cases "p ! filenameIndex = CHR ''.''")
      case False
      then show ?thesis using True by (subst splitext_loop.simps) (simp add: t d)
    next
      case dot: True
      have "splitext_loop p filenameIndex dotIndex = splitext_loop p (filenameIndex + 1) dotIndex"
        using True dot by (subst splitext_loop.simps) (simp add: t)
      also have "\<dots> = (if list_ex (\<lambda>c. c \<noteq> CHR ''.'') (drop (filenameIndex + 1) (take dotIndex p))
        then Some (take dotIndex p, drop dotIndex p) else None)"
      proof (rule 1(1)[OF True _ 1(2)])
        show "\<not> take 1 (drop filenameIndex p) \<noteq> ''.''" using dot t by simp
      qed
      finally show ?thesis using dot by (simp add: d)
    qed
  qed
qed

section \<open>The files a run includes\<close>

lemma lookup_dir_dirs_of: "lookup_dir es d = Some sub \<Longrightarrow> d \<in> set (dirs_of es)"
  by (induction es d rule: lookup_dir.induct) (auto split: if_splits)

lemma wf_tree_lookup_file:
  "wf_tree es \<Longrightarrow> (n, c) \<in> set (nondirs_of es) \<longleftrightarrow> lookup_file es n = Some c"
proof (induction es rule: wf_tree.induct)
  case 1 then show ?case by simp
next
  case (2 n' c' es)
  have "(n', x) \<notin> set (nondirs_of es)" for x
  proof
    assume "(n', x) \<in> set (nondirs_of es)"
    then have "n' \<in> set (map entry_name es)"
      by (induction es rule: nondirs_of.induct) auto
    then show False using 2(2) by simp
  qed
  then show ?case using 2 by auto
next
  case (3 d sub es) then show ?case by simp
qed

lemma wf_tree_distinct_dirs: "wf_tree es \<Longrightarrow> distinct (dirs_of es)"
proof (induction es rule: wf_tree.induct)
  case (3 d sub es)
  have "d \<notin> set (dirs_of es)"
  proof
    assume "d \<in> set (dirs_of es)"
    then have "d \<in> set (map entry_name es)" by (induction es rule: dirs_of.induct) auto
    then show False using 3(3) by simp
  qed
  then show ?case using 3 by simp
qed simp_all

lemma wf_tree_distinct_files: "wf_tree es \<Longrightarrow> distinct (map fst (nondirs_of es))"
proof (induction es rule: wf_tree.induct)
  case (2 n c es)
  have "n \<notin> set (map fst (nondirs_of es))"
  proof
    assume "n \<in> set (map fst (nondirs_of es))"
    then have "n \<in> set (map entry_name es)" by (induction es rule: nondirs_of.induct) auto
    then show False using 2(2) by simp
  qed
  then show ?case using 2 by simp
qed simp_all

lemma set_included_files:
  "set (included_files A cs es) =
     (\<lambda>f. (cs @ [fst f], snd f)) ` {f \<in> set (nondirs_of es). is_included A (fst f)} \<union>
     (\<Union>d \<in> set (prune_ignored (dirs_of es)).
        case lookup_dir es d of None \<Rightarrow> {} | Some sub \<Rightarrow> set (included_files A (cs @ [d]) sub))"
  by (subst included_files.simps) (auto split: option.splits)

lemma included_files_cases:
  assumes "(p, c) \<in> set (included_files A cs es)"
  obtains (here) n where "p = cs @ [n]" "(n, c) \<in> set (nondirs_of es)" "is_included A n"
    | (below) d sub where "d \<in> set (prune_ignored (dirs_of es))" "lookup_dir es d = Some sub"
          "(p, c) \<in> set (included_files A (cs @ [d]) sub)"
  using assms by (subst (asm) set_included_files) (auto split: option.splits)

lemma included_files_iff:
  "wf_tree es \<Longrightarrow>
     (p, c) \<in> set (included_files A cs es) \<longleftrightarrow>
     (\<exists>q. p = cs @ q \<and> lookup_path es q = Some c \<and> is_included A (last q) \<and>
          set (butlast q) \<inter> IGNORE_DIRS = {})"
proof (induction A cs es arbitrary: p rule: included_files.induct)
  case (1 A cs es)
  note wf = 1(2)
  have sub: "(p, c) \<in> set (included_files A (cs @ [d]) sub) \<longleftrightarrow>
     (\<exists>q. p = (cs @ [d]) @ q \<and> lookup_path sub q = Some c \<and> is_included A (last q) \<and>
          set (butlast q) \<inter> IGNORE_DIRS = {})"
    if "d \<in> set (prune_ignored (dirs_of es))" "lookup_dir es d = Some sub" for d sub p
    using that wf wf_tree_lookup_dir by (intro 1(1)) blast+
  show ?case (is "?L \<longleftrightarrow> ?R")
  proof
    assume L: ?L
    from L show ?R
    proof (cases rule: included_files_cases)
      case (here n)
      then have "lookup_file es n = Some c" using wf wf_tree_lookup_file by simp
      then show ?thesis using here by (intro exI[where x = "[n]"]) simp
    next
      case (below d sub)
      then obtain q where q: "p = (cs @ [d]) @ q" "lookup_path sub q = Some c" "is_included A (last q)"
          "set (butlast q) \<inter> IGNORE_DIRS = {}"
        using sub by blast
      then have ne: "q \<noteq> []" by auto
      then obtain n r where qq: "q = n # r" by (cases q) auto
      have "d \<notin> IGNORE_DIRS" using below(1) by (simp add: prune_ignored_def)
      then show ?thesis using q below(2) qq
        by (intro exI[where x = "d # q"]) auto
    qed
  next
    assume ?R
    then obtain q where q: "p = cs @ q" "lookup_path es q = Some c" "is_included A (last q)"
          "set (butlast q) \<inter> IGNORE_DIRS = {}" by blast
    then have "q \<noteq> []" by auto
    then consider n where "q = [n]" | d n r where "q = d # n # r"
      by (cases q; cases "tl q") auto
    then show ?L
    proof cases
      case 1
      then have "(n, c) \<in> set (nondirs_of es)" using q wf wf_tree_lookup_file by simp
      then show ?thesis using q 1
        by (subst set_included_files) force
    next
      case 2
      then obtain sub where l: "lookup_dir es d = Some sub" "lookup_path sub (n # r) = Some c"
        using q(2) by (auto split: option.splits)
      have d: "d \<in> set (prune_ignored (dirs_of es))"
        using l(1) q(4) 2 lookup_dir_dirs_of by (auto simp: prune_ignored_def)
      have "(p, c) \<in> set (included_files A (cs @ [d]) sub)"
        using sub[OF d l(1)] q 2 l(2) by (intro iffD2[OF sub[OF d l(1)]] exI[where x = "n # r"]) auto
      then show ?thesis using d l(1)
        by (subst set_included_files) (auto intro!: bexI[of _ d])
    qed
  qed
qed

lemma included_files_prefix:
  "(p, c) \<in> set (included_files A cs es) \<Longrightarrow> \<exists>q. p = cs @ q \<and> q \<noteq> []"
proof (induction A cs es arbitrary: p rule: included_files.induct)
  case (1 A cs es)
  from 1(2) show ?case
  proof (cases rule: included_files_cases)
    case (here n) then show ?thesis by simp
  next
    case (below d sub)
    from 1(1)[OF below] obtain q where "p = (cs @ [d]) @ q" by blast
    then show ?thesis by simp
  qed
qed

lemma included_files_valid:
  "wf_tree es \<Longrightarrow> list_all valid_name cs \<Longrightarrow> (p, c) \<in> set (included_files A cs es) \<Longrightarrow>
     list_all valid_name p"
proof (induction A cs es arbitrary: p rule: included_files.induct)
  case (1 A cs es)
  from 1(4) show ?case
  proof (cases rule: included_files_cases)
    case (here n)
    have "valid_name n" using wf_tree_nondirs[OF 1(2) here(2)] by simp
    then show ?thesis using here(1) 1(3) by simp
  next
    case (below d sub)
    have w: "wf_tree sub" "valid_name d" using 1(2) below(2) wf_tree_lookup_dir by blast+
    have "list_all valid_name (cs @ [d])" using 1(3) w(2) by simp
    then show ?thesis using 1(1)[OF below(1,2) w(1) _ below(3)] by simp
  qed
qed

lemma distinct_concat_map:
  assumes "distinct ds"
    and "\<And>d. d \<in> set ds \<Longrightarrow> distinct (f d)"
    and "\<And>d d'. d \<in> set ds \<Longrightarrow> d' \<in> set ds \<Longrightarrow> d \<noteq> d' \<Longrightarrow> set (f d) \<inter> set (f d') = {}"
  shows "distinct (concat (map f ds))"
  using assms
proof (induction ds)
  case Nil then show ?case by simp
next
  case (Cons d ds)
  have "distinct (concat (map f ds))" using Cons.prems by (intro Cons.IH) auto
  moreover have "distinct (f d)" using Cons.prems by simp
  moreover have "set (f d) \<inter> set (f d') = {}" if "d' \<in> set ds" for d'
    using that Cons.prems(1) by (intro Cons.prems(3)) auto
  ultimately show ?case by auto
qed

lemma included_files_distinct:
  "wf_tree es \<Longrightarrow> distinct (map fst (included_files A cs es))"
proof (induction A cs es rule: included_files.induct)
  case (1 A cs es)
  let ?here = "map (\<lambda>f. (cs @ [fst f], snd f)) (filter (\<lambda>f. is_included A (fst f)) (nondirs_of es))"
  let ?sub = "\<lambda>d. map fst (case lookup_dir es d of None \<Rightarrow> [] | Some sub \<Rightarrow> included_files A (cs @ [d]) sub)"
  let ?ds = "prune_ignored (dirs_of es)"
  have eq: "map fst (included_files A cs es) = map fst ?here @ concat (map ?sub ?ds)"
    by (subst included_files.simps) (simp add: map_concat comp_def)
  have h: "distinct (map fst ?here)"
  proof -
    have "distinct (map fst (filter (\<lambda>f. is_included A (fst f)) (nondirs_of es)))"
      using wf_tree_distinct_files[OF 1(2)] by (rule distinct_map_filter)
    then have "distinct (map (\<lambda>n. cs @ [n]) (map fst (filter (\<lambda>f. is_included A (fst f)) (nondirs_of es))))"
      by (simp add: distinct_map inj_on_def)
    then show ?thesis by (simp add: comp_def)
  qed
  have pre: "\<exists>q. p = cs @ d # q \<and> q \<noteq> []" if "p \<in> set (?sub d)" for p d
  proof (cases "lookup_dir es d")
    case None then show ?thesis using that by simp
  next
    case (Some sub)
    with that obtain c where "(p, c) \<in> set (included_files A (cs @ [d]) sub)" by auto
    then show ?thesis using included_files_prefix by fastforce
  qed
  have s: "distinct (concat (map ?sub ?ds))"
  proof (rule distinct_concat_map)
    show "distinct ?ds" using wf_tree_distinct_dirs[OF 1(2)] by (simp add: prune_ignored_def)
    show "distinct (?sub d)" if "d \<in> set ?ds" for d
    proof (cases "lookup_dir es d")
      case None then show ?thesis by simp
    next
      case (Some sub)
      then have "wf_tree sub" using 1(2) wf_tree_lookup_dir by blast
      then show ?thesis using 1(1)[OF that Some] Some by simp
    qed
    show "set (?sub d) \<inter> set (?sub d') = {}" if "d \<noteq> d'" for d d'
    proof (rule ccontr)
      assume "set (?sub d) \<inter> set (?sub d') \<noteq> {}"
      then obtain p where "p \<in> set (?sub d)" "p \<in> set (?sub d')" by blast
      then obtain q q' where "p = cs @ d # q" "p = cs @ d' # q'" using pre by blast
      then show False using that by simp
    qed
  qed
  have "set (map fst ?here) \<inter> set (concat (map ?sub ?ds)) = {}"
  proof (rule ccontr)
    assume "set (map fst ?here) \<inter> set (concat (map ?sub ?ds)) \<noteq> {}"
    then obtain p where a: "p \<in> set (map fst ?here)" and b: "p \<in> set (concat (map ?sub ?ds))" by blast
    from a obtain n where "p = cs @ [n]" by auto
    moreover from b obtain d where "p \<in> set (?sub d)" by auto
    then obtain q where "p = cs @ d # q" "q \<noteq> []" using pre by blast
    ultimately show False by simp
  qed
  then show ?case unfolding eq using h s by simp
qed

lemma str_join_inj:
  assumes "list_all valid_name xs" "list_all valid_name ys" "xs \<noteq> []" "ys \<noteq> []"
    and "str_join ''/'' xs = str_join ''/'' ys"
  shows "xs = ys"
proof -
  have "xs = str_split (str_join ''/'' xs) CHR ''/''"
    by (rule str_split_join[OF assms(1,3), symmetric])
  also have "\<dots> = str_split (str_join ''/'' ys) CHR ''/''"
    by (simp only: assms(5))
  also have "\<dots> = ys"
    by (rule str_split_join[OF assms(2,4)])
  finally show ?thesis .
qed

lemma included_files_distinct_paths:
  assumes "wf_tree es"
  shows "distinct (map (\<lambda>f. str_join ''/'' (fst f)) (included_files A [] es))"
proof -
  have v: "list_all valid_name p \<and> p \<noteq> []" if "p \<in> set (map fst (included_files A [] es))" for p
  proof -
    from that obtain c where c: "(p, c) \<in> set (included_files A [] es)" by auto
    then have "list_all valid_name p" using assms included_files_valid[of es "[]"] by simp
    moreover have "p \<noteq> []" using included_files_prefix[OF c] by simp
    ultimately show ?thesis ..
  qed
  have "inj_on (str_join ''/'') (set (map fst (included_files A [] es)))"
  proof (rule inj_onI)
    fix x y
    assume x: "x \<in> set (map fst (included_files A [] es))"
      and y: "y \<in> set (map fst (included_files A [] es))"
      and e: "str_join ''/'' x = str_join ''/'' y"
    show "x = y" using v[OF x] v[OF y] e by (intro str_join_inj) simp_all
  qed
  with included_files_distinct[OF assms]
  have "distinct (map (str_join ''/'') (map fst (included_files A [] es)))"
    by (rule iffD2[OF distinct_map, OF conjI])
  then show ?thesis by (simp add: comp_def)
qed

lemma str_join_not_abs:
  assumes "list_all valid_name p" "p \<noteq> []"
  shows "\<not> isabs (str_join ''/'' p)"
proof -
  obtain x xs where p: "p = x # xs" using assms(2) by (cases p) auto
  then have "x \<noteq> []" "CHR ''/'' \<notin> set x" using assms(1) by (auto simp: valid_name_def)
  then obtain a x' where x: "x = a # x'" "a \<noteq> CHR ''/''" by (cases x) auto
  show ?thesis by (simp add: p x isabs_def startswith_def str_join_Cons)
qed

section \<open>Files that are left out do not matter\<close>

lemma dirs_of_strip: "prune_ignored (dirs_of (strip A es)) = prune_ignored (dirs_of es)"
  by (induction A es rule: strip.induct) (auto simp: prune_ignored_def)

lemma nondirs_of_strip:
  "nondirs_of (strip A es) = filter (\<lambda>f. is_included A (fst f)) (nondirs_of es)"
  by (induction A es rule: strip.induct) auto

lemma lookup_dir_strip:
  "d \<notin> IGNORE_DIRS \<Longrightarrow> lookup_dir (strip A es) d = map_option (strip A) (lookup_dir es d)"
  by (induction A es rule: strip.induct) auto

lemma strip_append: "strip A (xs @ ys) = strip A xs @ strip A ys"
  by (induction A xs rule: strip.induct) auto

lemma walk_strip:
  "walk prune_ignored top_dir (strip A es) = map (keep_included A) (walk prune_ignored top_dir es)"
proof (induction prune_ignored top_dir es rule: walk.induct)
  case (1 top_dir es)
  let ?ds = "prune_ignored (dirs_of es)"
  have sub: "(case lookup_dir (strip A es) d of None \<Rightarrow> []
              | Some sub \<Rightarrow> walk prune_ignored (os_path_join top_dir [d]) sub) =
             map (keep_included A)
               (case lookup_dir es d of None \<Rightarrow> []
                | Some sub \<Rightarrow> walk prune_ignored (os_path_join top_dir [d]) sub)"
    if d: "d \<in> set ?ds" for d
  proof (cases "lookup_dir es d")
    case None
    then show ?thesis using d by (simp add: lookup_dir_strip prune_ignored_def)
  next
    case (Some sub)
    have "d \<notin> IGNORE_DIRS" using d by (simp add: prune_ignored_def)
    then have "lookup_dir (strip A es) d = Some (strip A sub)" using Some by (simp add: lookup_dir_strip)
    then show ?thesis using 1[OF refl d Some] Some by simp
  qed
  have "walk prune_ignored top_dir (strip A es) =
      (top_dir, ?ds, filter (\<lambda>f. is_included A (fst f)) (nondirs_of es)) #
      concat (map (\<lambda>d. case lookup_dir (strip A es) d of None \<Rightarrow> []
              | Some sub \<Rightarrow> walk prune_ignored (os_path_join top_dir [d]) sub) ?ds)"
    by (subst walk.simps) (simp add: Let_def dirs_of_strip nondirs_of_strip)
  also have "concat (map (\<lambda>d. case lookup_dir (strip A es) d of None \<Rightarrow> []
              | Some sub \<Rightarrow> walk prune_ignored (os_path_join top_dir [d]) sub) ?ds) =
      concat (map (\<lambda>d. map (keep_included A)
               (case lookup_dir es d of None \<Rightarrow> []
                | Some sub \<Rightarrow> walk prune_ignored (os_path_join top_dir [d]) sub)) ?ds)"
    using sub by (intro arg_cong[where f = concat] map_cong) auto
  finally show ?case
    by (subst (2) walk.simps) (simp add: Let_def keep_included_def map_concat comp_def)
qed

lemma for_each_filter:
  assumes "\<And>x s. \<not> P x \<Longrightarrow> body x s = Inr s"
  shows "for_each body (filter P xs) s = for_each body xs s"
  using assms by (induction xs arbitrary: s) (auto split: sum.splits)

lemma for_each_cong:
  assumes "\<And>x s. x \<in> set xs \<Longrightarrow> f x s = g x s"
  shows "for_each f xs s = for_each g xs s"
  using assms by (induction xs arbitrary: s) (auto split: sum.splits)

lemma content_pass_strip:
  assumes "\<And>dirpath f s. \<not> is_included A (fst f) \<Longrightarrow> body dirpath f s = Inr s"
  shows "for_each (\<lambda>(dirpath, dirnames, filenames). for_each (body dirpath) filenames)
           (walk prune_ignored top_dir (strip A es)) s =
         for_each (\<lambda>(dirpath, dirnames, filenames). for_each (body dirpath) filenames)
           (walk prune_ignored top_dir es) s"
proof -
  have "for_each (\<lambda>(dirpath, dirnames, filenames). for_each (body dirpath) filenames)
           (map (keep_included A) ws) s =
        for_each (\<lambda>(dirpath, dirnames, filenames). for_each (body dirpath) filenames) ws s" for ws
  proof (induction ws arbitrary: s)
    case Nil then show ?case by simp
  next
    case (Cons w ws)
    obtain dp ds fs where w: "w = (dp, ds, fs)" by (cases w)
    have f: "for_each (body dp) (filter (\<lambda>f. is_included A (fst f)) fs) s = for_each (body dp) fs s"
      by (rule for_each_filter) (rule assms)
    have k: "keep_included A (dp, ds, fs) = (dp, ds, filter (\<lambda>f. is_included A (fst f)) fs)"
      by (simp add: keep_included_def)
    show ?case unfolding w by (simp add: k f Cons.IH split: sum.splits)
  qed
  then show ?thesis by (simp add: walk_strip)
qed

lemma merge_code_file_body_skip:
  "\<not> is_included merge_code_ALLOWED_EXTENSIONS (fst f) \<Longrightarrow>
     merge_code_file_body root_dir dirpath f s = Inr s"
  by (simp add: merge_code_file_body_def is_included_def Let_def)

lemma mergecode_file_body_skip:
  "\<not> is_included mergecode_ALLOWED_EXTENSIONS (fst f) \<Longrightarrow>
     mergecode_file_body root_dir dirpath f s = Inr s"
  by (simp add: mergecode_file_body_def is_included_def Let_def)

lemma tree_dir_body_keep:
  "tree_dir_body startpath (keep_included mergecode_ALLOWED_EXTENSIONS item) s =
     tree_dir_body startpath item s"
proof -
  obtain dp ds fs where i: "item = (dp, ds, fs)" by (cases item)
  have f: "for_each body (filter (\<lambda>f. is_included mergecode_ALLOWED_EXTENSIONS (fst f)) fs) s1 =
      for_each body fs s1"
    if "body = (\<lambda>f s'. let ext = snd (splitext (fst f)) in
                      if ext \<in> mergecode_ALLOWED_EXTENSIONS
                      then outfile_write s' (sub @ fst f @ ''\<newline>'')
                      else Inr s')" for body :: "string \<times> fcontent \<Rightarrow> io \<Rightarrow> result" and sub s1
    by (rule for_each_filter) (simp add: that is_included_def)
  show ?thesis
    unfolding i keep_included_def tree_dir_body_def prod.case Let_def
    using f[OF refl, unfolded Let_def]
    by (simp split: sum.splits)
qed

lemma write_tree_structure_strip:
  "write_tree_structure startpath (strip mergecode_ALLOWED_EXTENSIONS es) s =
     write_tree_structure startpath es s"
proof -
  have k: "for_each (tree_dir_body startpath) (map (keep_included mergecode_ALLOWED_EXTENSIONS) ws) s =
        for_each (tree_dir_body startpath) ws s" for ws s
    by (induction ws arbitrary: s) (simp_all add: tree_dir_body_keep split: sum.splits)
  show ?thesis unfolding write_tree_structure_def walk_strip k by (rule refl)
qed

lemma merge_code_strip:
  "merge_code_merge_files cwd (strip merge_code_ALLOWED_EXTENSIONS es) = merge_code_merge_files cwd es"
  unfolding merge_code_merge_files_def Let_def
  by (subst content_pass_strip) (simp_all add: merge_code_file_body_skip)

lemma mergecode_strip:
  "mergecode_merge_files cwd (strip mergecode_ALLOWED_EXTENSIONS es) = mergecode_merge_files cwd es"
  unfolding mergecode_merge_files_def Let_def write_tree_structure_strip
  by (subst content_pass_strip) (simp_all add: mergecode_file_body_skip)

lemma lookup_file_strip:
  "lookup_file (strip A es) n = (if is_included A n then lookup_file es n else None)"
  by (induction A es rule: strip.induct) auto

lemma lookup_dir_strip_ignored: "d \<in> IGNORE_DIRS \<Longrightarrow> lookup_dir (strip A es) d = None"
  by (induction A es rule: strip.induct) auto

lemma lookup_path_strip:
  "lookup_path (strip A es) p =
     (if is_included A (last p) \<and> set (butlast p) \<inter> IGNORE_DIRS = {} then lookup_path es p else None)"
proof (induction es p rule: lookup_path.induct)
  case (1 es) then show ?case by simp
next
  case (2 es n) then show ?case by (simp add: lookup_file_strip)
next
  case (3 es d n p)
  show ?case
  proof (cases "d \<in> IGNORE_DIRS")
    case True then show ?thesis by (simp add: lookup_dir_strip_ignored)
  next
    case False
    show ?thesis
    proof (cases "lookup_dir es d")
      case None then show ?thesis using False by (simp add: lookup_dir_strip)
    next
      case (Some sub)
      then show ?thesis using False 3[OF Some] by (simp add: lookup_dir_strip)
    qed
  qed
qed

lemma output_file_excluded:
  "\<not> is_included merge_code_ALLOWED_EXTENSIONS OUTPUT_FILE"
  "\<not> is_included mergecode_ALLOWED_EXTENSIONS OUTPUT_FILE"
  "snd (splitext OUTPUT_FILE) = ''.txt''"
  by code_simp+

text \<open>What is left of a tree holds the same included files, and is well formed.\<close>

lemma included_files_strip: "included_files A cs (strip A es) = included_files A cs es"
proof (induction A cs es rule: included_files.induct)
  case (1 A cs es)
  let ?ds = "prune_ignored (dirs_of es)"
  have sub: "(case lookup_dir (strip A es) d of None \<Rightarrow> []
              | Some sub \<Rightarrow> included_files A (cs @ [d]) sub) =
             (case lookup_dir es d of None \<Rightarrow> []
              | Some sub \<Rightarrow> included_files A (cs @ [d]) sub)"
    if d: "d \<in> set ?ds" for d
  proof (cases "lookup_dir es d")
    case None
    then show ?thesis using d by (simp add: lookup_dir_strip prune_ignored_def)
  next
    case (Some sub)
    have "d \<notin> IGNORE_DIRS" using d by (simp add: prune_ignored_def)
    then have "lookup_dir (strip A es) d = Some (strip A sub)" using Some by (simp add: lookup_dir_strip)
    then show ?thesis using 1[OF d Some] Some by simp
  qed
  have "included_files A cs (strip A es) =
      map (\<lambda>f. (cs @ [fst f], snd f)) (filter (\<lambda>f. is_included A (fst f)) (nondirs_of es)) @
      concat (map (\<lambda>d. case lookup_dir (strip A es) d of None \<Rightarrow> []
              | Some sub \<Rightarrow> included_files A (cs @ [d]) sub) ?ds)"
    by (subst included_files.simps) (simp add: dirs_of_strip nondirs_of_strip)
  also have "concat (map (\<lambda>d. case lookup_dir (strip A es) d of None \<Rightarrow> []
              | Some sub \<Rightarrow> included_files A (cs @ [d]) sub) ?ds) =
      concat (map (\<lambda>d. case lookup_dir es d of None \<Rightarrow> []
              | Some sub \<Rightarrow> included_files A (cs @ [d]) sub) ?ds)"
    using sub by (intro arg_cong[where f = concat] map_cong) auto
  finally show ?case by (subst (2) included_files.simps)
qed

lemma entry_name_strip: "set (map entry_name (strip A es)) \<subseteq> set (map entry_name es)"
  by (induction A es rule: strip.induct) auto

lemma wf_tree_strip: "wf_tree es \<Longrightarrow> wf_tree (strip A es)"
proof (induction A es rule: strip.induct)
  case (1 A) then show ?case by simp
next
  case (2 A n c es)
  then show ?case using entry_name_strip[of A es] by auto
next
  case (3 A d sub es)
  then show ?case using entry_name_strip[of A es] by auto
qed

lemma structure_lines_keep:
  "structure_lines startpath (keep_included mergecode_ALLOWED_EXTENSIONS item) =
     structure_lines startpath item"
  by (cases item) (simp add: structure_lines_def keep_included_def)

lemma structure_section_strip:
  "structure_section startpath (strip mergecode_ALLOWED_EXTENSIONS es) = structure_section startpath es"
  by (simp add: structure_section_def walk_strip comp_def structure_lines_keep)

section \<open>The directories the walk visits\<close>

lemma abs_path_inj:
  assumes "list_all valid_name xs" "list_all valid_name ys" "abs_path xs = abs_path ys"
  shows "xs = ys"
proof -
  have "xs = filter (\<lambda>x. x \<noteq> []) (str_split (abs_path xs) CHR ''/'')"
    by (rule str_split_abs_path[OF assms(1), symmetric])
  also have "\<dots> = filter (\<lambda>x. x \<noteq> []) (str_split (abs_path ys) CHR ''/'')"
    by (simp only: assms(3))
  also have "\<dots> = ys" by (rule str_split_abs_path[OF assms(2)])
  finally show ?thesis .
qed

lemma set_walk:
  "set (walk prune top_dir es) =
     insert (top_dir, prune (dirs_of es), nondirs_of es)
       (\<Union>d \<in> set (prune (dirs_of es)).
          case lookup_dir es d of None \<Rightarrow> {}
          | Some sub \<Rightarrow> set (walk prune (os_path_join top_dir [d]) sub))"
  by (subst walk.simps) (auto simp: Let_def split: option.splits)

lemma walk_cases:
  assumes "x \<in> set (walk prune top_dir es)"
  obtains (here) "x = (top_dir, prune (dirs_of es), nondirs_of es)"
    | (below) d sub where "d \<in> set (prune (dirs_of es))" "lookup_dir es d = Some sub"
        "x \<in> set (walk prune (os_path_join top_dir [d]) sub)"
proof -
  from assms have "x = (top_dir, prune (dirs_of es), nondirs_of es) \<or>
      (\<exists>d sub. d \<in> set (prune (dirs_of es)) \<and> lookup_dir es d = Some sub \<and>
         x \<in> set (walk prune (os_path_join top_dir [d]) sub))"
    by (subst (asm) set_walk) (auto split: option.splits)
  then show thesis using here below by blast
qed

lemma walk_belowI:
  assumes "d \<in> set (prune (dirs_of es))" "lookup_dir es d = Some sub"
    and "x \<in> set (walk prune (os_path_join top_dir [d]) sub)"
  shows "x \<in> set (walk prune top_dir es)"
proof -
  have "x \<in> (\<Union>d \<in> set (prune (dirs_of es)).
          case lookup_dir es d of None \<Rightarrow> {}
          | Some sub \<Rightarrow> set (walk prune (os_path_join top_dir [d]) sub))"
    using assms by (intro UN_I[of d]) simp_all
  then show ?thesis by (subst set_walk) simp
qed

lemma walk_dirnames:
  "(dirpath, dirnames, filenames) \<in> set (walk prune_ignored top_dir es) \<Longrightarrow>
     set dirnames \<inter> IGNORE_DIRS = {}"
proof (induction prune_ignored top_dir es rule: walk.induct)
  case (1 top_dir es)
  from 1(2) show ?case
  proof (cases rule: walk_cases)
    case here then show ?thesis by (auto simp: prune_ignored_def)
  next
    case (below d sub) then show ?thesis using 1(1)[OF refl below(1,2)] by simp
  qed
qed

lemma wf_tree_lookup_dirs:
  "wf_tree es \<Longrightarrow> lookup_dirs es p = Some sub \<Longrightarrow> list_all valid_name p \<and> wf_tree sub"
proof (induction es p rule: lookup_dirs.induct)
  case (1 es) then show ?case by simp
next
  case (2 es d p)
  then obtain s where s: "lookup_dir es d = Some s" "lookup_dirs s p = Some sub"
    by (auto split: option.splits)
  have "wf_tree s" "valid_name d" using wf_tree_lookup_dir[OF 2(2) s(1)] by simp_all
  then show ?case using 2(1)[OF s(1) _ s(2)] by simp
qed

lemma visited_iff:
  assumes rc: "list_all valid_name rc"
  shows "wf_tree es \<Longrightarrow> list_all valid_name cs \<Longrightarrow>
     dp \<in> fst ` set (walk prune_ignored (abs_path (rc @ cs)) es) \<longleftrightarrow>
     (\<exists>p. dp = abs_path (rc @ cs @ p) \<and> lookup_dirs es p \<noteq> None \<and> set p \<inter> IGNORE_DIRS = {})"
proof (induction prune_ignored "abs_path (rc @ cs)" es arbitrary: cs rule: walk.induct)
  case (1 es cs)
  note wf = 1(2) and cs = 1(3)
  have sub: "dp \<in> fst ` set (walk prune_ignored (os_path_join (abs_path (rc @ cs)) [d]) sub) \<longleftrightarrow>
     (\<exists>p. dp = abs_path (rc @ (cs @ [d]) @ p) \<and> lookup_dirs sub p \<noteq> None \<and> set p \<inter> IGNORE_DIRS = {})"
    if d: "d \<in> set (prune_ignored (dirs_of es))" and l: "lookup_dir es d = Some sub" for d sub
  proof -
    have w: "wf_tree sub" "valid_name d" using wf_tree_lookup_dir[OF wf l] by simp_all
    have j: "os_path_join (abs_path (rc @ cs)) [d] = abs_path (rc @ (cs @ [d]))"
      using join_abs_path[of "rc @ cs" d] rc cs w by simp
    have v: "list_all valid_name (cs @ [d])" using cs w by simp
    show ?thesis using 1(1)[OF refl d l j w(1) v] by (simp only: j)
  qed
  show ?case (is "?L \<longleftrightarrow> ?R")
  proof
    assume ?L
    then obtain x where x: "x \<in> set (walk prune_ignored (abs_path (rc @ cs)) es)" "dp = fst x"
      by auto
    from x(1) show ?R
    proof (cases rule: walk_cases)
      case here then show ?thesis using x(2) by (intro exI[where x = "[]"]) simp
    next
      case (below d sub)
      then have 2: "d \<in> set (prune_ignored (dirs_of es))" "lookup_dir es d = Some sub"
          "dp \<in> fst ` set (walk prune_ignored (os_path_join (abs_path (rc @ cs)) [d]) sub)"
        using x(2) by auto
      then obtain p where p: "dp = abs_path (rc @ (cs @ [d]) @ p)" "lookup_dirs sub p \<noteq> None"
          "set p \<inter> IGNORE_DIRS = {}" using sub by blast
      have "d \<notin> IGNORE_DIRS" using 2(1) by (simp add: prune_ignored_def)
      then show ?thesis using p 2(2) by (intro exI[where x = "d # p"]) simp
    qed
  next
    assume ?R
    then obtain p where p: "dp = abs_path (rc @ cs @ p)" "lookup_dirs es p \<noteq> None"
        "set p \<inter> IGNORE_DIRS = {}" by blast
    show ?L
    proof (cases p)
      case Nil
      then show ?thesis using p by (subst set_walk) simp
    next
      case (Cons d p')
      then obtain sub where l: "lookup_dir es d = Some sub" "lookup_dirs sub p' \<noteq> None"
        using p(2) by (auto split: option.splits)
      have d: "d \<in> set (prune_ignored (dirs_of es))"
        using l(1) p(3) Cons lookup_dir_dirs_of by (auto simp: prune_ignored_def)
      have "dp \<in> fst ` set (walk prune_ignored (os_path_join (abs_path (rc @ cs)) [d]) sub)"
        using p Cons l(2) by (intro iffD2[OF sub[OF d l(1)]] exI[where x = p']) simp
      then obtain x where "x \<in> set (walk prune_ignored (os_path_join (abs_path (rc @ cs)) [d]) sub)"
          "dp = fst x" by auto
      then show ?thesis
        using walk_belowI[of d prune_ignored es sub x "abs_path (rc @ cs)"] d l(1) by force
    qed
  qed
qed

section \<open>The structure section\<close>

lemma str_replace_nil: "old \<noteq> [] \<Longrightarrow> str_replace [] old new = []"
  by (subst str_replace.simps) simp

lemma str_replace_prefix:
  "old \<noteq> [] \<Longrightarrow> str_replace (old @ rest) old new = new @ str_replace rest old new"
  by (subst str_replace.simps) simp

lemma str_replace_absent:
  "old \<noteq> [] \<Longrightarrow> \<not> sublist old s \<Longrightarrow> str_replace s old new = s"
proof (induction s)
  case Nil then show ?case by (simp add: str_replace_nil)
next
  case (Cons a s)
  have np: "take (length old) (a # s) \<noteq> old"
  proof
    assume "take (length old) (a # s) = old"
    then have "prefix old (a # s)" by (metis take_is_prefix)
    then show False using Cons.prems(2) by (simp add: prefix_imp_sublist)
  qed
  have "\<not> sublist old s" using Cons.prems(2) by (auto simp: sublist_Cons_right)
  then have "str_replace s old new = s" using Cons by simp
  then show ?case using np Cons.prems(1) by (subst str_replace.simps) simp
qed

lemma str_count_rel:
  "list_all valid_name cs \<Longrightarrow> str_count (concat (map (\<lambda>c. ''/'' @ c) cs)) CHR ''/'' = length cs"
  by (induction cs) (auto simp: str_count_def valid_name_def filter_empty_conv)

lemma abs_path_append:
  "rc \<noteq> [] \<Longrightarrow> abs_path (rc @ cs) = abs_path rc @ concat (map (\<lambda>c. ''/'' @ c) cs)"
  by (cases rc) (simp_all add: abs_path_def str_join_Cons)

lemma dir_level_depth:
  assumes "rc \<noteq> []" "list_all valid_name cs"
    and "\<not> sublist (abs_path rc) (concat (map (\<lambda>c. ''/'' @ c) cs))"
  shows "dir_level (abs_path rc) (abs_path (rc @ cs)) = length cs"
proof -
  have ne: "abs_path rc \<noteq> []" by (simp add: abs_path_def)
  have "str_replace (abs_path (rc @ cs)) (abs_path rc) [] =
      str_replace (concat (map (\<lambda>c. ''/'' @ c) cs)) (abs_path rc) []"
    using assms(1) ne by (simp add: abs_path_append str_replace_prefix)
  also have "\<dots> = concat (map (\<lambda>c. ''/'' @ c) cs)"
    using ne assms(3) by (rule str_replace_absent)
  finally show ?thesis using str_count_rel[OF assms(2)] by (simp add: dir_level_def)
qed

lemma dir_level_root: "startpath \<noteq> [] \<Longrightarrow> dir_level startpath startpath = 0"
  using str_replace_prefix[of startpath "[]" "[]"]
  by (simp add: dir_level_def str_replace_nil str_count_def)

lemma structure_starts_with_root:
  assumes "startpath \<noteq> []"
  shows "\<exists>rest. structure_section startpath es =
     ''PROJECT STRUCTURE:\<newline>==================\<newline>'' @ basename startpath @ ''/\<newline>'' @
     concat (map (\<lambda>f. ''    '' @ fst f @ ''\<newline>'')
                 (filter (\<lambda>f. is_included mergecode_ALLOWED_EXTENSIONS (fst f)) (nondirs_of es))) @
     rest"
proof -
  have "\<exists>ws. walk prune_ignored startpath es =
      (startpath, prune_ignored (dirs_of es), nondirs_of es) # ws"
    by (subst walk.simps) (simp add: Let_def)
  then obtain ws where w: "walk prune_ignored startpath es =
      (startpath, prune_ignored (dirs_of es), nondirs_of es) # ws" ..
  have l: "structure_lines startpath (startpath, prune_ignored (dirs_of es), nondirs_of es) =
      basename startpath @ ''/\<newline>'' @
      concat (map (\<lambda>f. ''    '' @ fst f @ ''\<newline>'')
                 (filter (\<lambda>f. is_included mergecode_ALLOWED_EXTENSIONS (fst f)) (nondirs_of es)))"
    by (simp add: structure_lines_def dir_level_root[OF assms] numeral_eq_Suc)
  show ?thesis
    by (simp add: structure_section_def w l)
qed

text \<open>
  The structure pass writes the lines of every directory when the names it meets can be
  encoded.
\<close>

lemma tree_dir_body_emit:
  assumes b: "is_utf8 (basename root)" and fs: "\<And>f. f \<in> set files \<Longrightarrow> is_utf8 (fst f)"
  shows "tree_dir_body startpath (root, dirs, files) s =
     Inr (emit s (structure_lines startpath (root, dirs, files)) [])"
proof -
  define ind where "ind = replicate (4 * dir_level startpath root) CHR '' ''"
  define sub where "sub = replicate (4 * (dir_level startpath root + 1)) CHR '' ''"
  define F where "F = (\<lambda>(f :: string \<times> fcontent) s'. let ext = snd (splitext (fst f)) in
                 if ext \<in> mergecode_ALLOWED_EXTENSIONS
                 then outfile_write s' (sub @ fst f @ ''\<newline>'')
                 else Inr s')"
  have sp: "is_utf8 ind" "is_utf8 sub"
    unfolding ind_def sub_def by (rule is_utf8_replicate, simp add: byte_def)+
  have nl: "is_utf8 ''\<newline>''" "is_utf8 ''/\<newline>''"
    by (rule is_utf8_ascii, simp add: byte_def)+
  have F: "F f s = Inr (emit s (if is_included mergecode_ALLOWED_EXTENSIONS (fst f)
                          then sub @ fst f @ ''\<newline>'' else []) [])" if "f \<in> set files" for f s
  proof -
    have "is_utf8 (sub @ fst f @ ''\<newline>'')"
      by (intro is_utf8_append sp nl fs that)
    then show ?thesis by (simp add: F_def Let_def is_included_def outfile_write_emit)
  qed
  have "for_each F files s = Inr (emit s (concat (map (\<lambda>f. if is_included mergecode_ALLOWED_EXTENSIONS (fst f)
                          then sub @ fst f @ ''\<newline>'' else []) files))
                   (concat (map (\<lambda>f. []) files)))" for s
    by (rule for_each_emit) (rule F)
  moreover have "concat (map (\<lambda>f. if is_included mergecode_ALLOWED_EXTENSIONS (fst f)
                          then sub @ fst f @ ''\<newline>'' else []) files) =
      concat (map (\<lambda>f. sub @ fst f @ ''\<newline>'')
                    (filter (\<lambda>f. is_included mergecode_ALLOWED_EXTENSIONS (fst f)) files))"
    by (induction files) auto
  ultimately have key: "for_each F files s =
      Inr (emit s (concat (map (\<lambda>f. sub @ fst f @ ''\<newline>'')
                    (filter (\<lambda>f. is_included mergecode_ALLOWED_EXTENSIONS (fst f)) files))) [])" for s
    by simp
  have "is_utf8 (ind @ basename root @ ''/\<newline>'')"
    by (intro is_utf8_append sp nl b)
  then have first: "outfile_write s (ind @ basename root @ ''/\<newline>'') =
      Inr (emit s (ind @ basename root @ ''/\<newline>'') [])"
    by (rule outfile_write_emit)
  have "tree_dir_body startpath (root, dirs, files) s =
      (case outfile_write s (ind @ basename root @ ''/\<newline>'') of
         Inl x \<Rightarrow> Inl x | Inr s1 \<Rightarrow> for_each F files s1)"
    unfolding tree_dir_body_def prod.case Let_def F_def ind_def sub_def dir_level_def
    by (rule refl)
  also have "\<dots> = Inr (emit s ((ind @ basename root @ ''/\<newline>'') @
      concat (map (\<lambda>f. sub @ fst f @ ''\<newline>'')
                    (filter (\<lambda>f. is_included mergecode_ALLOWED_EXTENSIONS (fst f)) files))) [])"
    unfolding first by (simp add: key)
  finally show ?thesis
    by (simp add: structure_lines_def ind_def sub_def)
qed

lemma walk_item_encodable:
  assumes rc: "list_all valid_name rc"
  shows "wf_tree es \<Longrightarrow> encodable_tree es \<Longrightarrow> list_all valid_name cs \<Longrightarrow>
     is_utf8 (basename (abs_path (rc @ cs))) \<Longrightarrow>
     x \<in> set (walk prune_ignored (abs_path (rc @ cs)) es) \<Longrightarrow>
     is_utf8 (basename (fst x)) \<and> (\<forall>f \<in> set (snd (snd x)). is_utf8 (fst f))"
proof (induction prune_ignored "abs_path (rc @ cs)" es arbitrary: cs rule: walk.induct)
  case (1 es cs)
  note wf = 1(2) and enc = 1(3) and cs = 1(4) and b = 1(5)
  from 1(6) show ?case
  proof (cases rule: walk_cases)
    case here
    then show ?thesis using b encodable_tree_nondirs[OF enc] by simp
  next
    case (below d sub)
    have w: "wf_tree sub" "valid_name d" using wf_tree_lookup_dir[OF wf below(2)] by simp_all
    have e: "encodable_tree sub" "is_utf8 d" using encodable_tree_lookup_dir[OF enc below(2)] by simp_all
    have j: "os_path_join (abs_path (rc @ cs)) [d] = abs_path (rc @ (cs @ [d]))"
      using join_abs_path[of "rc @ cs" d] rc cs w by simp
    have v: "list_all valid_name (cs @ [d])" using cs w by simp
    have bd: "is_utf8 (basename (abs_path (rc @ (cs @ [d]))))"
      using basename_abs_path[OF w(2), of "rc @ cs"] e(2) by simp
    have "x \<in> set (walk prune_ignored (abs_path (rc @ (cs @ [d]))) sub)"
      using below(3) by (simp only: j)
    then show ?thesis using 1(1)[OF refl below(1,2) j w(1) e(1) v bd] by simp
  qed
qed

lemma write_tree_structure_eq:
  assumes "list_all valid_name rc" "wf_tree es" "encodable_tree es"
    and "is_utf8 (basename (abs_path rc))"
  shows "write_tree_structure (abs_path rc) es s =
     Inr (emit s (structure_section (abs_path rc) es) [])"
proof -
  have item: "tree_dir_body (abs_path rc) x s = Inr (emit s (structure_lines (abs_path rc) x) [])"
    if x: "x \<in> set (walk prune_ignored (abs_path rc) es)" for x s
  proof -
    obtain root dirs files where i: "x = (root, dirs, files)" by (cases x)
    have "is_utf8 (basename (fst x)) \<and> (\<forall>f \<in> set (snd (snd x)). is_utf8 (fst f))"
      using walk_item_encodable[OF assms(1,2,3), of "[]" x] assms(4) x by simp
    then show ?thesis unfolding i by (intro tree_dir_body_emit) simp_all
  qed
  have loop: "for_each (tree_dir_body (abs_path rc)) (walk prune_ignored (abs_path rc) es) s =
      Inr (emit s (concat (map (structure_lines (abs_path rc)) (walk prune_ignored (abs_path rc) es)))
             (concat (map (\<lambda>x. []) (walk prune_ignored (abs_path rc) es))))" for s
    by (rule for_each_emit) (rule item)
  have t: "is_utf8 ''PROJECT STRUCTURE:\<newline>''" "is_utf8 ''==================\<newline>''"
    "is_utf8 ''\<newline>\<newline>''"
    by (rule is_utf8_ascii, simp add: byte_def)+
  show ?thesis
    unfolding write_tree_structure_def outfile_write_emit[OF t(1)] outfile_write_emit[OF t(2)]
      sum.case loop outfile_write_emit[OF t(3)]
    by (simp add: structure_section_def)
qed

section \<open>The output of a run\<close>

text \<open>
  A run returns when the names of the stripped tree can be encoded, which are the names of
  the files that pass the filter and of the directories that are not ignored, and for
  \<^verbatim>\<open>mergecode.py\<close> the base name of the root as well: it writes no other name.
\<close>

lemma merge_code_run_encodable:
  assumes "wf_root rc" "wf_tree es" "encodable_tree es"
  shows "merge_code_merge_files (abs_path rc) es =
     Inr \<lparr>outfile = concat (map merge_code_block (included_files merge_code_ALLOWED_EXTENSIONS [] es)),
          stdout = concat (map diagnostic (included_files merge_code_ALLOWED_EXTENSIONS [] es)) @
                   [merge_code_success]\<rparr>"
proof -
  have rc: "list_all valid_name rc" using assms by (simp add: wf_root_def)
  have "for_each (\<lambda>(dirpath, dirnames, filenames).
           for_each (merge_code_file_body (abs_path rc) dirpath) filenames)
         (walk prune_ignored (abs_path (rc @ [])) es) io0 =
       Inr (emit io0 (concat (map merge_code_block (included_files merge_code_ALLOWED_EXTENSIONS [] es)))
                 (concat (map diagnostic (included_files merge_code_ALLOWED_EXTENSIONS [] es))))"
    using rc assms(2,3) by (intro walk_loop merge_code_file_body_eq) simp_all
  then show ?thesis
    by (simp add: merge_code_merge_files_def Let_def print_line_def)
qed

lemma merge_code_run:
  assumes "wf_root rc" "wf_tree es" "encodable_tree (strip merge_code_ALLOWED_EXTENSIONS es)"
  shows "merge_code_merge_files (abs_path rc) es =
     Inr \<lparr>outfile = concat (map merge_code_block (included_files merge_code_ALLOWED_EXTENSIONS [] es)),
          stdout = concat (map diagnostic (included_files merge_code_ALLOWED_EXTENSIONS [] es)) @
                   [merge_code_success]\<rparr>"
  using merge_code_run_encodable[OF assms(1) wf_tree_strip[OF assms(2)] assms(3)]
  by (simp only: merge_code_strip included_files_strip)

lemma mergecode_run_encodable:
  assumes "wf_root rc" "wf_tree es" "encodable_tree es" "is_utf8 (basename (abs_path rc))"
  shows "mergecode_merge_files (abs_path rc) es =
     Inr \<lparr>outfile = structure_section (abs_path rc) es @
                     concat (map mergecode_block (included_files mergecode_ALLOWED_EXTENSIONS [] es)),
          stdout = [''Generating folder structure...'', ''Merging file contents...''] @
                   concat (map diagnostic (included_files mergecode_ALLOWED_EXTENSIONS [] es)) @
                   [mergecode_success]\<rparr>"
proof -
  have rc: "list_all valid_name rc" using assms by (simp add: wf_root_def)
  have l: "for_each (\<lambda>(dirpath, dirnames, filenames).
           for_each (mergecode_file_body (abs_path rc) dirpath) filenames)
         (walk prune_ignored (abs_path (rc @ [])) es) s =
       Inr (emit s (concat (map mergecode_block (included_files mergecode_ALLOWED_EXTENSIONS [] es)))
                 (concat (map diagnostic (included_files mergecode_ALLOWED_EXTENSIONS [] es))))" for s
    using rc assms(2,3) by (intro walk_loop mergecode_file_body_eq) simp_all
  note w = write_tree_structure_eq[OF rc assms(2,3,4)]
  show ?thesis
    unfolding mergecode_merge_files_def Let_def w sum.case l[simplified]
    by (simp add: print_line_emit)
qed

lemma mergecode_run:
  assumes "wf_root rc" "wf_tree es" "encodable_tree (strip mergecode_ALLOWED_EXTENSIONS es)"
    and "is_utf8 (basename (abs_path rc))"
  shows "mergecode_merge_files (abs_path rc) es =
     Inr \<lparr>outfile = structure_section (abs_path rc) es @
                     concat (map mergecode_block (included_files mergecode_ALLOWED_EXTENSIONS [] es)),
          stdout = [''Generating folder structure...'', ''Merging file contents...''] @
                   concat (map diagnostic (included_files mergecode_ALLOWED_EXTENSIONS [] es)) @
                   [mergecode_success]\<rparr>"
  using mergecode_run_encodable[OF assms(1) wf_tree_strip[OF assms(2)] assms(3,4)]
  by (simp only: mergecode_strip included_files_strip structure_section_strip)

section \<open>The properties of the specification\<close>

text \<open>
  In what follows a run is given a well-formed tree.  Every name a run writes is a name of
  \<open>strip A es\<close>, the tree without the files the filter rejects and without the ignored
  directories, or, in \<^verbatim>\<open>mergecode.py\<close>, the base name of the root.  The names of a tree
  are said to be writable by \<^verbatim>\<open>merge_code.py\<close> when all names of \<open>strip A es\<close> are
  well-formed UTF-8, and by \<^verbatim>\<open>mergecode.py\<close> when the base name of the root is so too.
\<close>

subsection \<open>C1: every included file has exactly one block\<close>

text \<open>
  C1 says that, for every directory tree, every file whose extension is in the allow-set
  and that lies under no ignored directory has exactly one block.  With the extension the
  specification defines, the substring from the last dot, this fails for a file named
  \<^verbatim>\<open>.swift\<close>: its extension would be \<^verbatim>\<open>.swift\<close>, yet neither script writes a block for it,
  because \<^verbatim>\<open>os.path.splitext\<close> gives it no extension.  It also fails when the name of a
  file that passes the filter is not well-formed UTF-8: the header is written outside the
  \<^verbatim>\<open>try\<close>, the line \<^verbatim>\<open>FILE: ...\<close> cannot be encoded, and the run ends there with
  \<^verbatim>\<open>UnicodeEncodeError\<close>, so that the file \<^verbatim>\<open>b.swift\<close> after it has no block either.
\<close>

theorem leading_dot_file_without_block:
  "spec_extension ''.swift'' \<in> merge_code_ALLOWED_EXTENSIONS \<and>
   spec_extension ''.swift'' \<in> mergecode_ALLOWED_EXTENSIONS \<and>
   merge_code_merge_files ''/r'' [FileE ''.swift'' (Readable ''A'')] =
     Inr \<lparr>outfile = [], stdout = [merge_code_success]\<rparr> \<and>
   mergecode_merge_files ''/r'' [FileE ''.swift'' (Readable ''A'')] =
     Inr \<lparr>outfile = ''PROJECT STRUCTURE:\<newline>==================\<newline>r/\<newline>\<newline>\<newline>'',
          stdout = [''Generating folder structure...'', ''Merging file contents...'',
                    mergecode_success]\<rparr> \<and>
   is_included merge_code_ALLOWED_EXTENSIONS (CHR 0xFF # ''.swift'') \<and>
   is_included merge_code_ALLOWED_EXTENSIONS ''b.swift'' \<and>
   merge_code_merge_files ''/r''
       [FileE (CHR 0xFF # ''.swift'') (Readable ''A''), FileE ''b.swift'' (Readable ''B'')] =
     Inl (UnicodeEncodeError (''FILE: '' @ CHR 0xFF # ''.swift\<newline>''),
          \<lparr>outfile = ''\<newline>'' @ separator @ ''\<newline>'', stdout = []\<rparr>)"
  by code_simp

text \<open>
  C1 as amended: for every well-formed tree whose names are writable, the output document
  of either script is the concatenation of one block per element of \<open>included_files\<close>,
  in the order of the walk (after the structure section in \<^verbatim>\<open>mergecode.py\<close>).  That
  list holds no path twice, and it holds a file exactly when the file is in the tree, its extension as \<^verbatim>\<open>os.path.splitext\<close> gives it is in the
  allow-set and no directory on its path below the root has an ignored name; so every such
  file has exactly one block and no other file has one.  In the scenario of the
  specification the only block is the one of \<^verbatim>\<open>src/main.swift\<close>, with content \<^verbatim>\<open>A\<close>, also
  for the allow-set \<^verbatim>\<open>{.swift, .h}\<close>.
\<close>

theorem included_files_once:
  assumes "wf_root rc" and "wf_tree es"
  shows "(encodable_tree (strip merge_code_ALLOWED_EXTENSIONS es) \<longrightarrow>
        document (merge_code_merge_files (abs_path rc) es) =
          Inr (concat (map merge_code_block (included_files merge_code_ALLOWED_EXTENSIONS [] es)))) \<and>
     (encodable_tree (strip mergecode_ALLOWED_EXTENSIONS es) \<and> is_utf8 (basename (abs_path rc)) \<longrightarrow>
        document (mergecode_merge_files (abs_path rc) es) =
          Inr (structure_section (abs_path rc) es @
               concat (map mergecode_block (included_files mergecode_ALLOWED_EXTENSIONS [] es)))) \<and>
     distinct (map (\<lambda>f. str_join ''/'' (fst f)) (included_files A [] es)) \<and>
     ((p, c) \<in> set (included_files A [] es) \<longleftrightarrow>
        lookup_path es p = Some c \<and> is_included A (last p) \<and>
        set (butlast p) \<inter> IGNORE_DIRS = {}) \<and>
     document (merge_code_merge_files (abs_path rc) scenario) =
       Inr (merge_code_block ([''src'', ''main.swift''], Readable ''A'')) \<and>
     (is_utf8 (basename (abs_path rc)) \<longrightarrow>
        document (mergecode_merge_files (abs_path rc) scenario) =
          Inr (structure_section (abs_path rc) scenario @
               mergecode_block ([''src'', ''main.swift''], Readable ''A''))) \<and>
     included_files {''.swift'', ''.h''} [] scenario = [([''src'', ''main.swift''], Readable ''A'')]"
proof -
  have w: "wf_tree scenario" by code_simp
  have e: "encodable_tree (strip merge_code_ALLOWED_EXTENSIONS scenario)"
    "encodable_tree (strip mergecode_ALLOWED_EXTENSIONS scenario)" by code_simp+
  have i1: "included_files merge_code_ALLOWED_EXTENSIONS [] scenario =
      [([''src'', ''main.swift''], Readable ''A'')]" by code_simp
  have i2: "included_files mergecode_ALLOWED_EXTENSIONS [] scenario =
      [([''src'', ''main.swift''], Readable ''A'')]" by code_simp
  have i3: "included_files {''.swift'', ''.h''} [] scenario =
      [([''src'', ''main.swift''], Readable ''A'')]" by code_simp
  have iff: "(p, c) \<in> set (included_files A [] es) \<longleftrightarrow>
        lookup_path es p = Some c \<and> is_included A (last p) \<and>
        set (butlast p) \<inter> IGNORE_DIRS = {}"
    using included_files_iff[OF assms(2), of p c A "[]"] by simp
  have d1: "document (merge_code_merge_files (abs_path rc) es) =
          Inr (concat (map merge_code_block (included_files merge_code_ALLOWED_EXTENSIONS [] es)))"
    if "encodable_tree (strip merge_code_ALLOWED_EXTENSIONS es)"
    by (simp add: document_def merge_code_run[OF assms that])
  have d2: "document (mergecode_merge_files (abs_path rc) es) =
          Inr (structure_section (abs_path rc) es @
               concat (map mergecode_block (included_files mergecode_ALLOWED_EXTENSIONS [] es)))"
    if "encodable_tree (strip mergecode_ALLOWED_EXTENSIONS es)" "is_utf8 (basename (abs_path rc))"
    by (simp add: document_def mergecode_run[OF assms that])
  have s1: "document (merge_code_merge_files (abs_path rc) scenario) =
       Inr (merge_code_block ([''src'', ''main.swift''], Readable ''A''))"
    by (simp add: document_def merge_code_run[OF assms(1) w e(1)] i1)
  have s2: "document (mergecode_merge_files (abs_path rc) scenario) =
          Inr (structure_section (abs_path rc) scenario @
               mergecode_block ([''src'', ''main.swift''], Readable ''A''))"
    if "is_utf8 (basename (abs_path rc))"
    by (simp add: document_def mergecode_run[OF assms(1) w e(2) that] i2)
  show ?thesis
    using iff d1 d2 s1 s2 i3 included_files_distinct_paths[OF assms(2), of A] by blast
qed

theorem included_files_once_witness:
  "wf_root [''r''] \<and> wf_tree scenario \<and>
   encodable_tree (strip merge_code_ALLOWED_EXTENSIONS scenario) \<and>
   encodable_tree (strip mergecode_ALLOWED_EXTENSIONS scenario) \<and>
   is_utf8 (basename ''/r'') \<and>
   document (merge_code_merge_files ''/r'' scenario) =
     Inr (''\<newline>'' @ replicate 50 CHR ''='' @ ''\<newline>FILE: src/main.swift\<newline>'' @
          replicate 50 CHR ''='' @ ''\<newline>\<newline>A\<newline>'') \<and>
   document (mergecode_merge_files ''/r'' scenario) =
     Inr (structure_section ''/r'' scenario @
          replicate 50 CHR ''='' @ ''\<newline>FILE: src/main.swift\<newline>'' @
          replicate 50 CHR ''='' @ ''\<newline>\<newline>A\<newline>\<newline>'') \<and>
   ([''src'', ''main.swift''], Readable ''A'') \<in> set (included_files {''.swift'', ''.h''} [] scenario) \<and>
   lookup_path scenario [''src'', ''main.swift''] = Some (Readable ''A'') \<and>
   ([''Pods'', ''Lib.swift''], Readable ''B'') \<notin> set (included_files {''.swift'', ''.h''} [] scenario) \<and>
   lookup_path scenario [''Pods'', ''Lib.swift''] = Some (Readable ''B'') \<and>
   is_included {''.swift'', ''.h''} ''Lib.swift'' \<and>
   ([''build'', ''out.h''], Readable ''C'') \<notin> set (included_files {''.swift'', ''.h''} [] scenario) \<and>
   lookup_path scenario [''build'', ''out.h''] = Some (Readable ''C'') \<and>
   is_included {''.swift'', ''.h''} ''out.h''"
proof -
  have r: "wf_root [''r'']" by code_simp
  have w: "wf_tree scenario" by code_simp
  have e: "encodable_tree (strip merge_code_ALLOWED_EXTENSIONS scenario)"
    "encodable_tree (strip mergecode_ALLOWED_EXTENSIONS scenario)"
    "is_utf8 (basename ''/r'')" by code_simp+
  have a: "abs_path [''r''] = ''/r''" by (simp add: abs_path_def)
  have l: "lookup_path scenario [''src'', ''main.swift''] = Some (Readable ''A'')"
    "lookup_path scenario [''Pods'', ''Lib.swift''] = Some (Readable ''B'')"
    "lookup_path scenario [''build'', ''out.h''] = Some (Readable ''C'')"
    by code_simp+
  have i: "is_included {''.swift'', ''.h''} ''Lib.swift''" "is_included {''.swift'', ''.h''} ''out.h''"
    by code_simp+
  have b: "merge_code_block ([''src'', ''main.swift''], Readable ''A'') =
     ''\<newline>'' @ replicate 50 CHR ''='' @ ''\<newline>FILE: src/main.swift\<newline>'' @
          replicate 50 CHR ''='' @ ''\<newline>\<newline>A\<newline>''"
    "mergecode_block ([''src'', ''main.swift''], Readable ''A'') =
     replicate 50 CHR ''='' @ ''\<newline>FILE: src/main.swift\<newline>'' @
          replicate 50 CHR ''='' @ ''\<newline>\<newline>A\<newline>\<newline>''"
    by (simp_all add: merge_code_block_def mergecode_block_def header_def separator_def)
  note t = included_files_once[OF r w, of "{''.swift'', ''.h''}"]
  show ?thesis
    using t[of "[''src'', ''main.swift'']" "Readable ''A''"]
      t[of "[''Pods'', ''Lib.swift'']" "Readable ''B''"]
      t[of "[''build'', ''out.h'']" "Readable ''C''"] r w l i e
    by (simp add: a b)
qed

subsection \<open>C2: files that are left out\<close>

text \<open>
  C2: a file whose extension is not in the allow-set, or that lies anywhere under a
  directory with an ignored name, contributes nothing to the output document, neither its
  name nor any part of its content.  \<open>strip\<close> removes exactly these files (and the ignored
  directories) from a tree; two trees that are equal once stripped give the same result:
  the same output document, structure section and content section alike, the same lines
  on the standard output, and the same exception if the run ends with one.  So the result
  is the same whatever the names and contents of the files left out, and whether or not
  they are there.
\<close>

theorem excluded_files_no_effect:
  "(strip merge_code_ALLOWED_EXTENSIONS es = strip merge_code_ALLOWED_EXTENSIONS es' \<longrightarrow>
      merge_code_merge_files cwd es = merge_code_merge_files cwd es') \<and>
   (strip mergecode_ALLOWED_EXTENSIONS es = strip mergecode_ALLOWED_EXTENSIONS es' \<longrightarrow>
      mergecode_merge_files cwd es = mergecode_merge_files cwd es') \<and>
   lookup_path (strip A es) p =
     (if is_included A (last p) \<and> set (butlast p) \<inter> IGNORE_DIRS = {} then lookup_path es p else None)"
proof -
  have "merge_code_merge_files cwd es = merge_code_merge_files cwd es'"
    if "strip merge_code_ALLOWED_EXTENSIONS es = strip merge_code_ALLOWED_EXTENSIONS es'"
    using merge_code_strip[of cwd es] merge_code_strip[of cwd es'] that by simp
  moreover have "mergecode_merge_files cwd es = mergecode_merge_files cwd es'"
    if "strip mergecode_ALLOWED_EXTENSIONS es = strip mergecode_ALLOWED_EXTENSIONS es'"
    using mergecode_strip[of cwd es] mergecode_strip[of cwd es'] that by simp
  ultimately show ?thesis using lookup_path_strip by blast
qed

theorem excluded_files_no_effect_witness:
  "strip merge_code_ALLOWED_EXTENSIONS
     [FileE ''a.swift'' (Readable ''hello''), FileE ''notes.txt'' (Readable ''secret''),
      DirE ''Pods'' [FileE ''Lib.swift'' (Unreadable ''denied'')]] =
   strip merge_code_ALLOWED_EXTENSIONS [FileE ''a.swift'' (Readable ''hello'')] \<and>
   merge_code_merge_files ''/r''
     [FileE ''a.swift'' (Readable ''hello''), FileE ''notes.txt'' (Readable ''secret''),
      DirE ''Pods'' [FileE ''Lib.swift'' (Unreadable ''denied'')]] =
   merge_code_merge_files ''/r'' [FileE ''a.swift'' (Readable ''hello'')] \<and>
   strip mergecode_ALLOWED_EXTENSIONS
     [FileE ''a.swift'' (Readable ''hello''), FileE ''notes.txt'' (Readable ''secret''),
      DirE ''Pods'' [FileE ''Lib.swift'' (Unreadable ''denied'')]] =
   strip mergecode_ALLOWED_EXTENSIONS [FileE ''a.swift'' (Readable ''hello'')] \<and>
   mergecode_merge_files ''/r''
     [FileE ''a.swift'' (Readable ''hello''), FileE ''notes.txt'' (Readable ''secret''),
      DirE ''Pods'' [FileE ''Lib.swift'' (Unreadable ''denied'')]] =
   mergecode_merge_files ''/r'' [FileE ''a.swift'' (Readable ''hello'')]"
proof -
  let ?es = "[FileE ''a.swift'' (Readable ''hello''), FileE ''notes.txt'' (Readable ''secret''),
      DirE ''Pods'' [FileE ''Lib.swift'' (Unreadable ''denied'')]]"
  let ?es' = "[FileE ''a.swift'' (Readable ''hello'')]"
  have s1: "strip merge_code_ALLOWED_EXTENSIONS ?es = strip merge_code_ALLOWED_EXTENSIONS ?es'"
    by code_simp
  have s2: "strip mergecode_ALLOWED_EXTENSIONS ?es = strip mergecode_ALLOWED_EXTENSIONS ?es'"
    by code_simp
  show ?thesis
    using excluded_files_no_effect[of ?es ?es' "''/r''"] s1 s2 by blast
qed

subsection \<open>C3: a file that cannot be read\<close>

text \<open>
  C3 says that the header block of a file that cannot be opened or read is absent from the
  output document, and that the run then goes on and completes.  Both scripts write the
  header before the \<^verbatim>\<open>try\<close>, so it is there: for a root holding the one file \<^verbatim>\<open>x.swift\<close>,
  which cannot be read, each script writes the separator lines and the line
  \<^verbatim>\<open>FILE: x.swift\<close>, prints the diagnostic and ends with its success message.  And the run
  does not complete when the name of a later file cannot be encoded: after the diagnostic
  for \<^verbatim>\<open>x.swift\<close> it ends with \<^verbatim>\<open>UnicodeEncodeError\<close> at the header of the next file.
\<close>

theorem unreadable_header_written:
  "merge_code_merge_files ''/r'' [FileE ''x.swift'' (Unreadable ''denied'')] =
     Inr \<lparr>outfile = ''\<newline>'' @ separator @ ''\<newline>FILE: x.swift\<newline>'' @ separator @ ''\<newline>\<newline>'',
          stdout = [''Could not read x.swift: denied'', merge_code_success]\<rparr> \<and>
   mergecode_merge_files ''/r'' [FileE ''x.swift'' (Unreadable ''denied'')] =
     Inr \<lparr>outfile = ''PROJECT STRUCTURE:\<newline>==================\<newline>r/\<newline>    x.swift\<newline>\<newline>\<newline>'' @
                     separator @ ''\<newline>FILE: x.swift\<newline>'' @ separator @ ''\<newline>\<newline>'',
          stdout = [''Generating folder structure...'', ''Merging file contents...'',
                    ''Could not read x.swift: denied'', mergecode_success]\<rparr> \<and>
   merge_code_merge_files ''/r''
       [FileE ''x.swift'' (Unreadable ''denied''), FileE (CHR 0xFE # ''.swift'') (Readable ''Y'')] =
     Inl (UnicodeEncodeError (''FILE: '' @ CHR 0xFE # ''.swift\<newline>''),
          \<lparr>outfile = ''\<newline>'' @ separator @ ''\<newline>FILE: x.swift\<newline>'' @ separator @ ''\<newline>\<newline>'' @
                      ''\<newline>'' @ separator @ ''\<newline>'',
           stdout = [''Could not read x.swift: denied'']\<rparr>)"
  by code_simp

text \<open>
  C3 as amended: in a well-formed tree whose names are writable, for every file that
  passes the filter and cannot be opened or read, the run writes the file's header and
  nothing of its content, prints the diagnostic \<^verbatim>\<open>Could not read <relative_path>: <error>\<close>,
  goes on with the files after it exactly as with the files before it, and completes: it
  returns with the success message printed last.  The files \<open>before\<close> and \<open>after\<close> are those the walk meets before and after the
  file that cannot be read.  This holds of each script by itself, for the files its own
  allow-set includes.
\<close>

theorem unreadable_file_skipped:
  assumes "wf_root rc" and "wf_tree es"
  shows "(encodable_tree (strip merge_code_ALLOWED_EXTENSIONS es) \<and>
      included_files merge_code_ALLOWED_EXTENSIONS [] es = before1 @ (p1, Unreadable e1) # after1 \<longrightarrow>
      merge_code_merge_files (abs_path rc) es =
        Inr \<lparr>outfile = concat (map merge_code_block before1) @
                        (''\<newline>'' @ header (str_join ''/'' p1)) @
                        concat (map merge_code_block after1),
             stdout = concat (map diagnostic before1) @
                      [''Could not read '' @ str_join ''/'' p1 @ '': '' @ e1] @
                      concat (map diagnostic after1) @ [merge_code_success]\<rparr>) \<and>
     (encodable_tree (strip mergecode_ALLOWED_EXTENSIONS es) \<and> is_utf8 (basename (abs_path rc)) \<and>
      included_files mergecode_ALLOWED_EXTENSIONS [] es = before2 @ (p2, Unreadable e2) # after2 \<longrightarrow>
      mergecode_merge_files (abs_path rc) es =
        Inr \<lparr>outfile = structure_section (abs_path rc) es @
                        concat (map mergecode_block before2) @
                        header (str_join ''/'' p2) @
                        concat (map mergecode_block after2),
             stdout = [''Generating folder structure...'', ''Merging file contents...''] @
                      concat (map diagnostic before2) @
                      [''Could not read '' @ str_join ''/'' p2 @ '': '' @ e2] @
                      concat (map diagnostic after2) @ [mergecode_success]\<rparr>)"
proof -
  have m1: "merge_code_merge_files (abs_path rc) es =
        Inr \<lparr>outfile = concat (map merge_code_block before1) @
                        (''\<newline>'' @ header (str_join ''/'' p1)) @
                        concat (map merge_code_block after1),
             stdout = concat (map diagnostic before1) @
                      [''Could not read '' @ str_join ''/'' p1 @ '': '' @ e1] @
                      concat (map diagnostic after1) @ [merge_code_success]\<rparr>"
    if "encodable_tree (strip merge_code_ALLOWED_EXTENSIONS es)"
      "included_files merge_code_ALLOWED_EXTENSIONS [] es = before1 @ (p1, Unreadable e1) # after1"
    using that(2)
    by (simp add: merge_code_run[OF assms that(1)] merge_code_block_def diagnostic_def)
  have m2: "mergecode_merge_files (abs_path rc) es =
        Inr \<lparr>outfile = structure_section (abs_path rc) es @
                        concat (map mergecode_block before2) @
                        header (str_join ''/'' p2) @
                        concat (map mergecode_block after2),
             stdout = [''Generating folder structure...'', ''Merging file contents...''] @
                      concat (map diagnostic before2) @
                      [''Could not read '' @ str_join ''/'' p2 @ '': '' @ e2] @
                      concat (map diagnostic after2) @ [mergecode_success]\<rparr>"
    if "encodable_tree (strip mergecode_ALLOWED_EXTENSIONS es)" "is_utf8 (basename (abs_path rc))"
      "included_files mergecode_ALLOWED_EXTENSIONS [] es = before2 @ (p2, Unreadable e2) # after2"
    using that(3)
    by (simp add: mergecode_run[OF assms that(1,2)] mergecode_block_def diagnostic_def)
  show ?thesis using m1 m2 by blast
qed

theorem unreadable_file_skipped_witness:
  "wf_root [''r''] \<and>
   wf_tree [FileE ''a.swift'' (Readable ''A''), FileE ''x.h'' (Unreadable ''denied''),
            FileE ''y.plist'' (Unreadable ''busy''), FileE ''z.swift'' (Readable ''Z'')] \<and>
   included_files merge_code_ALLOWED_EXTENSIONS []
       [FileE ''a.swift'' (Readable ''A''), FileE ''x.h'' (Unreadable ''denied''),
        FileE ''y.plist'' (Unreadable ''busy''), FileE ''z.swift'' (Readable ''Z'')] =
     [([''a.swift''], Readable ''A'')] @ ([''x.h''], Unreadable ''denied'') #
     [([''z.swift''], Readable ''Z'')] \<and>
   included_files mergecode_ALLOWED_EXTENSIONS []
       [FileE ''a.swift'' (Readable ''A''), FileE ''x.h'' (Unreadable ''denied''),
        FileE ''y.plist'' (Unreadable ''busy''), FileE ''z.swift'' (Readable ''Z'')] =
     [([''a.swift''], Readable ''A'')] @ ([''y.plist''], Unreadable ''busy'') #
     [([''z.swift''], Readable ''Z'')] \<and>
   merge_code_merge_files ''/r''
       [FileE ''a.swift'' (Readable ''A''), FileE ''x.h'' (Unreadable ''denied''),
        FileE ''y.plist'' (Unreadable ''busy''), FileE ''z.swift'' (Readable ''Z'')] =
     Inr \<lparr>outfile = merge_code_block ([''a.swift''], Readable ''A'') @
                     (''\<newline>'' @ header ''x.h'') @
                     merge_code_block ([''z.swift''], Readable ''Z''),
          stdout = [''Could not read x.h: denied'', merge_code_success]\<rparr> \<and>
   mergecode_merge_files ''/r''
       [FileE ''a.swift'' (Readable ''A''), FileE ''x.h'' (Unreadable ''denied''),
        FileE ''y.plist'' (Unreadable ''busy''), FileE ''z.swift'' (Readable ''Z'')] =
     Inr \<lparr>outfile = structure_section ''/r''
                        [FileE ''a.swift'' (Readable ''A''), FileE ''x.h'' (Unreadable ''denied''),
                         FileE ''y.plist'' (Unreadable ''busy''), FileE ''z.swift'' (Readable ''Z'')] @
                     mergecode_block ([''a.swift''], Readable ''A'') @
                     header ''y.plist'' @
                     mergecode_block ([''z.swift''], Readable ''Z''),
          stdout = [''Generating folder structure...'', ''Merging file contents...'',
                    ''Could not read y.plist: busy'', mergecode_success]\<rparr>"
proof -
  let ?es = "[FileE ''a.swift'' (Readable ''A''), FileE ''x.h'' (Unreadable ''denied''),
        FileE ''y.plist'' (Unreadable ''busy''), FileE ''z.swift'' (Readable ''Z'')]"
  have r: "wf_root [''r'']" by code_simp
  have w: "wf_tree ?es" by code_simp
  have e: "encodable_tree (strip merge_code_ALLOWED_EXTENSIONS ?es)"
    "encodable_tree (strip mergecode_ALLOWED_EXTENSIONS ?es)"
    "is_utf8 (basename ''/r'')" by code_simp+
  have i1: "included_files merge_code_ALLOWED_EXTENSIONS [] ?es =
      [([''a.swift''], Readable ''A'')] @ ([''x.h''], Unreadable ''denied'') #
      [([''z.swift''], Readable ''Z'')]"
    by code_simp
  have i2: "included_files mergecode_ALLOWED_EXTENSIONS [] ?es =
      [([''a.swift''], Readable ''A'')] @ ([''y.plist''], Unreadable ''busy'') #
      [([''z.swift''], Readable ''Z'')]"
    by code_simp
  have a: "abs_path [''r''] = ''/r''" by (simp add: abs_path_def)
  note t = unreadable_file_skipped[OF r w, of "[([''a.swift''], Readable ''A'')]" "[''x.h'']"
      "''denied''" "[([''z.swift''], Readable ''Z'')]" "[([''a.swift''], Readable ''A'')]"
      "[''y.plist'']" "''busy''" "[([''z.swift''], Readable ''Z'')]"]
  from t have t1: "merge_code_merge_files ''/r'' ?es =
     Inr \<lparr>outfile = merge_code_block ([''a.swift''], Readable ''A'') @
                     (''\<newline>'' @ header ''x.h'') @
                     merge_code_block ([''z.swift''], Readable ''Z''),
          stdout = [''Could not read x.h: denied'', merge_code_success]\<rparr>"
    using e(1) i1 by (simp add: a diagnostic_def)
  from t have t2: "mergecode_merge_files ''/r'' ?es =
     Inr \<lparr>outfile = structure_section ''/r'' ?es @
                     mergecode_block ([''a.swift''], Readable ''A'') @
                     header ''y.plist'' @
                     mergecode_block ([''z.swift''], Readable ''Z''),
          stdout = [''Generating folder structure...'', ''Merging file contents...'',
                    ''Could not read y.plist: busy'', mergecode_success]\<rparr>"
    using e(2,3) i2 by (simp add: a diagnostic_def)
  show ?thesis using r w i1 i2 t1 t2 by blast
qed

subsection \<open>C4: the extension filter\<close>

text \<open>
  C4 says that the extension is the substring from the last dot on with no special
  treatment of a leading dot, so that a file named \<^verbatim>\<open>.swift\<close> has the extension
  \<^verbatim>\<open>.swift\<close> and is included.  \<^verbatim>\<open>os.path.splitext\<close> skips the dots a name starts with: the
  extension of \<^verbatim>\<open>.swift\<close> is empty and the file is left out by both scripts.
\<close>

theorem splitext_leading_dot:
  "splitext ''.swift'' = (''.swift'', []) \<and>
   spec_extension ''.swift'' = ''.swift'' \<and>
   \<not> is_included {''.swift''} ''.swift'' \<and>
   \<not> is_included merge_code_ALLOWED_EXTENSIONS ''.swift'' \<and>
   \<not> is_included mergecode_ALLOWED_EXTENSIONS ''.swift''"
  by code_simp

text \<open>
  C4 as amended: the filter is a function of the file name alone.  The extension is the
  substring from the last dot to the end, the dot included, when some character other
  than a dot stands before that last dot; otherwise (no dot, or only dots before the last
  one) it is empty.  A file is included exactly when its extension is a member of the
  allow-set, compared as it is; a name without a dot is included only when the allow-set
  holds the empty string.
\<close>

theorem extension_filter:
  assumes "CHR ''/'' \<notin> set filename"
  shows "snd (splitext filename) =
       (if list_ex (\<lambda>c. c \<noteq> CHR ''.'') (take (nat (rfind filename CHR ''.'')) filename)
        then spec_extension filename else []) \<and>
     is_included A filename = (snd (splitext filename) \<in> A) \<and>
     (CHR ''.'' \<notin> set filename \<longrightarrow> snd (splitext filename) = [] \<and> is_included A filename = ([] \<in> A))"
proof -
  have sep: "rfind filename CHR ''/'' = - 1" using assms by (rule rfind_absent)
  have main: "snd (splitext filename) =
       (if list_ex (\<lambda>c. c \<noteq> CHR ''.'') (take (nat (rfind filename CHR ''.'')) filename)
        then spec_extension filename else [])"
  proof (cases "CHR ''.'' \<in> set filename")
    case False
    then show ?thesis by (simp add: splitext_def sep rfind_absent)
  next
    case True
    then have b: "0 \<le> rfind filename CHR ''.''" "rfind filename CHR ''.'' < int (length filename)"
      using rfind_bounds by blast+
    then have le: "nat (rfind filename CHR ''.'') \<le> length filename" by simp
    show ?thesis
      using True b
      by (simp add: splitext_def sep Let_def splitext_loop_eq[OF le] spec_extension_def)
  qed
  have nodot: "snd (splitext filename) = []" if "CHR ''.'' \<notin> set filename"
    using that by (simp add: main rfind_absent)
  show ?thesis using main nodot by (simp add: is_included_def)
qed

theorem extension_filter_witness:
  "CHR ''/'' \<notin> set ''a.b.swift'' \<and> snd (splitext ''a.b.swift'') = ''.swift'' \<and>
   is_included {''.swift''} ''a.b.swift'' \<and>
   snd (splitext ''A.SWIFT'') = ''.SWIFT'' \<and> \<not> is_included {''.swift''} ''A.SWIFT'' \<and>
   snd (splitext ''..swift'') = [] \<and> snd (splitext ''Makefile'') = [] \<and>
   is_included {[]} ''Makefile'' \<and> \<not> is_included {''.swift''} ''Makefile''"
proof -
  have a: "CHR ''/'' \<notin> set ''a.b.swift''" by simp
  have b: "CHR ''/'' \<notin> set ''A.SWIFT''" by simp
  have c: "CHR ''/'' \<notin> set ''..swift''" by simp
  have d: "CHR ''/'' \<notin> set ''Makefile''" by simp
  have r: "rfind ''a.b.swift'' CHR ''.'' = 3" "rfind ''A.SWIFT'' CHR ''.'' = 1"
    "rfind ''..swift'' CHR ''.'' = 1" "rfind ''Makefile'' CHR ''.'' = - 1"
    by code_simp+
  show ?thesis
    using extension_filter[OF a, of "{''.swift''}"] extension_filter[OF b, of "{''.swift''}"]
      extension_filter[OF c, of "{''.swift''}"] extension_filter[OF d, of "{''.swift''}"]
      extension_filter[OF d, of "{[]}"]
    by (simp add: r spec_extension_def)
qed

subsection \<open>C5: the layout of a block\<close>

text \<open>
  C5 says that every included file is represented by a block that begins with the
  separator line, with no other text before it, and holds the line \<^verbatim>\<open>FILE: ...\<close>, a second
  separator line, a blank line and the file's contents.  In \<^verbatim>\<open>merge_code.py\<close> each block
  begins with a newline, so the document starts with an empty line; in both scripts the
  header of a file that cannot be read is followed by no contents; and for a file whose
  name is not well-formed UTF-8 \<^verbatim>\<open>merge_code.py\<close> writes the newline and the first separator
  line only, then ends with \<^verbatim>\<open>UnicodeEncodeError\<close>.
\<close>

theorem block_layout_differs:
  "document (merge_code_merge_files ''/r'' [FileE ''c.swift'' (Readable ''X'')]) =
     Inr (''\<newline>'' @ separator @ ''\<newline>FILE: c.swift\<newline>'' @ separator @ ''\<newline>\<newline>X\<newline>'') \<and>
   document (merge_code_merge_files ''/r'' [FileE ''c.swift'' (Unreadable ''denied'')]) =
     Inr (''\<newline>'' @ separator @ ''\<newline>FILE: c.swift\<newline>'' @ separator @ ''\<newline>\<newline>'') \<and>
   document (mergecode_merge_files ''/r'' [FileE ''c.swift'' (Unreadable ''denied'')]) =
     Inr (''PROJECT STRUCTURE:\<newline>==================\<newline>r/\<newline>    c.swift\<newline>\<newline>\<newline>'' @
          separator @ ''\<newline>FILE: c.swift\<newline>'' @ separator @ ''\<newline>\<newline>'') \<and>
   merge_code_merge_files ''/r'' [FileE (CHR 0xC3 # ''.swift'') (Readable ''X'')] =
     Inl (UnicodeEncodeError (''FILE: '' @ CHR 0xC3 # ''.swift\<newline>''),
          \<lparr>outfile = ''\<newline>'' @ separator @ ''\<newline>'', stdout = []\<rparr>)"
  by code_simp

text \<open>
  C5 as amended: in a well-formed tree whose names are writable, what is written for every
  included file is, in this order, a separator line of exactly 50 \<^verbatim>\<open>=\<close>, the line
  \<^verbatim>\<open>FILE: <relative_path>\<close>, a second separator line and a blank line; \<^verbatim>\<open>merge_code.py\<close>
  writes one newline before the first separator line, \<^verbatim>\<open>mergecode.py\<close> writes nothing
  before it.  The decoded contents follow when the file can
  be read (ended by one newline in \<^verbatim>\<open>merge_code.py\<close>, by two in \<^verbatim>\<open>mergecode.py\<close>); nothing
  follows when it cannot.  The path written is what \<^verbatim>\<open>relpath\<close> gives for the file's
  absolute path: its components below the root joined by \<^verbatim>\<open>/\<close>, never an absolute path.
\<close>

theorem block_layout:
  assumes "wf_root rc" and "wf_tree es"
  shows "(encodable_tree (strip merge_code_ALLOWED_EXTENSIONS es) \<longrightarrow>
        document (merge_code_merge_files (abs_path rc) es) =
          Inr (concat (map merge_code_block (included_files merge_code_ALLOWED_EXTENSIONS [] es)))) \<and>
     (encodable_tree (strip mergecode_ALLOWED_EXTENSIONS es) \<and> is_utf8 (basename (abs_path rc)) \<longrightarrow>
        document (mergecode_merge_files (abs_path rc) es) =
          Inr (structure_section (abs_path rc) es @
               concat (map mergecode_block (included_files mergecode_ALLOWED_EXTENSIONS [] es)))) \<and>
     merge_code_block (p, fc) =
       ''\<newline>'' @ replicate 50 CHR ''='' @ ''\<newline>'' @
       ''FILE: '' @ str_join ''/'' p @ ''\<newline>'' @
       replicate 50 CHR ''='' @ ''\<newline>'' @ ''\<newline>'' @
       (case fc of Readable t \<Rightarrow> t @ ''\<newline>'' | Unreadable e \<Rightarrow> []) \<and>
     mergecode_block (p, fc) =
       replicate 50 CHR ''='' @ ''\<newline>'' @
       ''FILE: '' @ str_join ''/'' p @ ''\<newline>'' @
       replicate 50 CHR ''='' @ ''\<newline>'' @ ''\<newline>'' @
       (case fc of Readable t \<Rightarrow> t @ ''\<newline>\<newline>'' | Unreadable e \<Rightarrow> []) \<and>
     ((p, fc) \<in> set (included_files A [] es) \<longrightarrow>
        relpath (abs_path rc) (abs_path (rc @ p)) (abs_path rc) = Inr (str_join ''/'' p) \<and>
        \<not> isabs (str_join ''/'' p))"
proof -
  have rel: "relpath (abs_path rc) (abs_path (rc @ p)) (abs_path rc) = Inr (str_join ''/'' p) \<and>
        \<not> isabs (str_join ''/'' p)" if m: "(p, fc) \<in> set (included_files A [] es)"
  proof -
    have v: "list_all valid_name p" using included_files_valid[OF assms(2) _ m] by simp
    have ne: "p \<noteq> []" using included_files_prefix[OF m] by simp
    have rc: "list_all valid_name rc" using assms(1) by (simp add: wf_root_def)
    show ?thesis using relpath_below[OF rc v ne] str_join_not_abs[OF v ne] by simp
  qed
  have b1: "merge_code_block (p, fc) =
       ''\<newline>'' @ replicate 50 CHR ''='' @ ''\<newline>'' @
       ''FILE: '' @ str_join ''/'' p @ ''\<newline>'' @
       replicate 50 CHR ''='' @ ''\<newline>'' @ ''\<newline>'' @
       (case fc of Readable t \<Rightarrow> t @ ''\<newline>'' | Unreadable e \<Rightarrow> [])"
    by (simp add: merge_code_block_def header_def separator_def)
  have b2: "mergecode_block (p, fc) =
       replicate 50 CHR ''='' @ ''\<newline>'' @
       ''FILE: '' @ str_join ''/'' p @ ''\<newline>'' @
       replicate 50 CHR ''='' @ ''\<newline>'' @ ''\<newline>'' @
       (case fc of Readable t \<Rightarrow> t @ ''\<newline>\<newline>'' | Unreadable e \<Rightarrow> [])"
    by (simp add: mergecode_block_def header_def separator_def)
  have d1: "document (merge_code_merge_files (abs_path rc) es) =
       Inr (concat (map merge_code_block (included_files merge_code_ALLOWED_EXTENSIONS [] es)))"
    if "encodable_tree (strip merge_code_ALLOWED_EXTENSIONS es)"
    by (simp add: document_def merge_code_run[OF assms that])
  have d2: "document (mergecode_merge_files (abs_path rc) es) =
       Inr (structure_section (abs_path rc) es @
            concat (map mergecode_block (included_files mergecode_ALLOWED_EXTENSIONS [] es)))"
    if "encodable_tree (strip mergecode_ALLOWED_EXTENSIONS es)" "is_utf8 (basename (abs_path rc))"
    by (simp add: document_def mergecode_run[OF assms that])
  show ?thesis using rel b1 b2 d1 d2 by blast
qed

theorem block_layout_witness:
  "wf_root [''r''] \<and>
   wf_tree [DirE ''a'' [DirE ''b'' [FileE ''c.swift'' (Readable ''X'')]]] \<and>
   encodable_tree (strip merge_code_ALLOWED_EXTENSIONS
                     [DirE ''a'' [DirE ''b'' [FileE ''c.swift'' (Readable ''X'')]]]) \<and>
   encodable_tree (strip mergecode_ALLOWED_EXTENSIONS
                     [DirE ''a'' [DirE ''b'' [FileE ''c.swift'' (Readable ''X'')]]]) \<and>
   is_utf8 (basename ''/r'') \<and>
   ([''a'', ''b'', ''c.swift''], Readable ''X'') \<in>
     set (included_files mergecode_ALLOWED_EXTENSIONS []
            [DirE ''a'' [DirE ''b'' [FileE ''c.swift'' (Readable ''X'')]]]) \<and>
   relpath ''/r'' ''/r/a/b/c.swift'' ''/r'' = Inr ''a/b/c.swift'' \<and>
   \<not> isabs ''a/b/c.swift'' \<and>
   document (merge_code_merge_files ''/r'' [DirE ''a'' [DirE ''b'' [FileE ''c.swift'' (Readable ''X'')]]]) =
     Inr (''\<newline>'' @ replicate 50 CHR ''='' @ ''\<newline>FILE: a/b/c.swift\<newline>'' @
          replicate 50 CHR ''='' @ ''\<newline>\<newline>X\<newline>'') \<and>
   document (mergecode_merge_files ''/r'' [DirE ''a'' [DirE ''b'' [FileE ''c.swift'' (Readable ''X'')]]]) =
     Inr (structure_section ''/r'' [DirE ''a'' [DirE ''b'' [FileE ''c.swift'' (Readable ''X'')]]] @
          replicate 50 CHR ''='' @ ''\<newline>FILE: a/b/c.swift\<newline>'' @
          replicate 50 CHR ''='' @ ''\<newline>\<newline>X\<newline>\<newline>'')"
proof -
  let ?es = "[DirE ''a'' [DirE ''b'' [FileE ''c.swift'' (Readable ''X'')]]]"
  have r: "wf_root [''r'']" by code_simp
  have w: "wf_tree ?es" by code_simp
  have e: "encodable_tree (strip merge_code_ALLOWED_EXTENSIONS ?es)"
    "encodable_tree (strip mergecode_ALLOWED_EXTENSIONS ?es)"
    "is_utf8 (basename ''/r'')" by code_simp+
  have i: "included_files mergecode_ALLOWED_EXTENSIONS [] ?es =
      [([''a'', ''b'', ''c.swift''], Readable ''X'')]"
    "included_files merge_code_ALLOWED_EXTENSIONS [] ?es =
      [([''a'', ''b'', ''c.swift''], Readable ''X'')]" by code_simp+
  have a: "abs_path [''r''] = ''/r''" "abs_path [''r'', ''a'', ''b'', ''c.swift''] = ''/r/a/b/c.swift''"
    by (simp_all add: abs_path_def)
  show ?thesis
    using block_layout[OF r w, of "[''a'', ''b'', ''c.swift'']" "Readable ''X''"
        mergecode_ALLOWED_EXTENSIONS] r w e
    by (simp add: i a)
qed

subsection \<open>C6: the indentation of the structure section\<close>

text \<open>
  C6 says that a directory line is indented by four spaces times the depth of the
  directory below the root.  \<^verbatim>\<open>write_tree_structure\<close> computes the level as
  \<^verbatim>\<open>root.replace(startpath, '').count(os.sep)\<close>, and \<^verbatim>\<open>replace\<close> removes every occurrence of
  the root path, not only the leading one.  With the working directory \<^verbatim>\<open>/app\<close> and the
  subdirectories \<^verbatim>\<open>app\<close> and \<^verbatim>\<open>apps\<close>, both at depth 1, the level computed for
  \<^verbatim>\<open>/app/app\<close> and for \<^verbatim>\<open>/app/apps\<close> is 0: their lines are not indented, and the file in
  \<^verbatim>\<open>/app/app\<close> is indented by four spaces instead of eight.  Where the root path does not
  occur again in the part of a directory's path below the root, the level is the depth
  (\<open>dir_level_depth\<close>), and the section is made of \<open>structure_lines\<close> as C6 describes
  (\<open>write_tree_structure_eq\<close>).
\<close>

theorem structure_level_of_recurring_root:
  "map fst (walk prune_ignored ''/app''
      [DirE ''app'' [FileE ''main.swift'' (Readable ''A'')], DirE ''apps'' []]) =
     [''/app'', ''/app/app'', ''/app/apps''] \<and>
   str_count (str_replace ''/app/app'' ''/app'' []) CHR ''/'' = 0 \<and>
   str_count (str_replace ''/app/apps'' ''/app'' []) CHR ''/'' = 0 \<and>
   write_tree_structure ''/app''
      [DirE ''app'' [FileE ''main.swift'' (Readable ''A'')], DirE ''apps'' []] io0 =
     Inr \<lparr>outfile =
            ''PROJECT STRUCTURE:\<newline>==================\<newline>'' @
            ''app/\<newline>'' @
            ''app/\<newline>'' @
            ''    main.swift\<newline>'' @
            ''apps/\<newline>'' @
            ''\<newline>\<newline>'',
          stdout = []\<rparr>"
  by code_simp

subsection \<open>C7: ignored directories are never visited\<close>

text \<open>
  C7: in every item the walk yields, the list of subdirectory names it descends into holds
  no ignored name.  A directory of the tree, named by its components \<open>p\<close> below the root,
  is visited exactly when none of these components is an ignored name: a directory with
  an ignored name is not visited, at whatever depth it lies, nor is any directory below
  it, and nothing else is skipped.  Only the names matter, not the paths.
\<close>

theorem ignored_dirs_never_visited:
  assumes "wf_root rc" and "wf_tree es"
  shows "((dirpath, dirnames, filenames) \<in> set (walk prune_ignored (abs_path rc) es) \<longrightarrow>
        set dirnames \<inter> IGNORE_DIRS = {}) \<and>
     (lookup_dirs es p \<noteq> None \<longrightarrow>
        (abs_path (rc @ p) \<in> fst ` set (walk prune_ignored (abs_path rc) es) \<longleftrightarrow>
         set p \<inter> IGNORE_DIRS = {}))"
proof -
  have rc: "list_all valid_name rc" using assms(1) by (simp add: wf_root_def)
  have b: "abs_path (rc @ p) \<in> fst ` set (walk prune_ignored (abs_path rc) es) \<longleftrightarrow>
         set p \<inter> IGNORE_DIRS = {}" if l: "lookup_dirs es p \<noteq> None"
  proof -
    from l obtain sub where "lookup_dirs es p = Some sub" by auto
    then have vp: "list_all valid_name p" using wf_tree_lookup_dirs[OF assms(2)] by blast
    have v: "abs_path (rc @ p) \<in> fst ` set (walk prune_ignored (abs_path rc) es) \<longleftrightarrow>
      (\<exists>q. abs_path (rc @ p) = abs_path (rc @ q) \<and> lookup_dirs es q \<noteq> None \<and> set q \<inter> IGNORE_DIRS = {})"
      using visited_iff[OF rc assms(2), of "[]" "abs_path (rc @ p)"] by simp
    show ?thesis
    proof
      assume "abs_path (rc @ p) \<in> fst ` set (walk prune_ignored (abs_path rc) es)"
      then obtain q where q: "abs_path (rc @ p) = abs_path (rc @ q)" "lookup_dirs es q \<noteq> None"
          "set q \<inter> IGNORE_DIRS = {}" using v by blast
      from q(2) obtain s where "lookup_dirs es q = Some s" by auto
      then have vq: "list_all valid_name q" using wf_tree_lookup_dirs[OF assms(2)] by blast
      have "rc @ p = rc @ q" using rc vp vq q(1) by (intro abs_path_inj) simp_all
      then show "set p \<inter> IGNORE_DIRS = {}" using q(3) by simp
    next
      assume "set p \<inter> IGNORE_DIRS = {}"
      then show "abs_path (rc @ p) \<in> fst ` set (walk prune_ignored (abs_path rc) es)"
        using v l by blast
    qed
  qed
  show ?thesis using b walk_dirnames by blast
qed

theorem ignored_dirs_never_visited_witness:
  "wf_root [''r''] \<and>
   wf_tree [DirE ''src'' [DirE ''build'' [DirE ''deep'' []], DirE ''ui'' []], DirE ''Pods'' []] \<and>
   map fst (walk prune_ignored ''/r''
     [DirE ''src'' [DirE ''build'' [DirE ''deep'' []], DirE ''ui'' []], DirE ''Pods'' []]) =
     [''/r'', ''/r/src'', ''/r/src/ui''] \<and>
   lookup_dirs [DirE ''src'' [DirE ''build'' [DirE ''deep'' []], DirE ''ui'' []], DirE ''Pods'' []]
     [''src'', ''build'', ''deep''] = Some [] \<and>
   ''/r/src/build/deep'' \<notin> fst ` set (walk prune_ignored ''/r''
     [DirE ''src'' [DirE ''build'' [DirE ''deep'' []], DirE ''ui'' []], DirE ''Pods'' []]) \<and>
   ''/r/src/ui'' \<in> fst ` set (walk prune_ignored ''/r''
     [DirE ''src'' [DirE ''build'' [DirE ''deep'' []], DirE ''ui'' []], DirE ''Pods'' []])"
proof -
  let ?es = "[DirE ''src'' [DirE ''build'' [DirE ''deep'' []], DirE ''ui'' []], DirE ''Pods'' []]"
  have r: "wf_root [''r'']" by code_simp
  have w: "wf_tree ?es" by code_simp
  have m: "map fst (walk prune_ignored ''/r'' ?es) = [''/r'', ''/r/src'', ''/r/src/ui'']"
    by code_simp
  have l: "lookup_dirs ?es [''src'', ''build'', ''deep''] = Some []"
    "lookup_dirs ?es [''src'', ''ui''] = Some []" by code_simp+
  have a: "abs_path [''r''] = ''/r''" "abs_path [''r'', ''src'', ''build'', ''deep''] = ''/r/src/build/deep''"
    "abs_path [''r'', ''src'', ''ui''] = ''/r/src/ui''"
    by (simp_all add: abs_path_def)
  have i: "set [''src'', ''build'', ''deep''] \<inter> IGNORE_DIRS \<noteq> {}"
    "set [''src'', ''ui''] \<inter> IGNORE_DIRS = {}"
    by (simp_all add: IGNORE_DIRS_def)
  show ?thesis
    using ignored_dirs_never_visited[OF r w, of _ _ _ "[''src'', ''build'', ''deep'']"]
      ignored_dirs_never_visited[OF r w, of _ _ _ "[''src'', ''ui'']"] r w m l i
    by (simp add: a)
qed

subsection \<open>C8: running the tool twice\<close>

text \<open>
  C8: between two runs on an unchanged source tree only the output file differs, which
  lies in the root.  Whatever it holds, and whether or not it is listed, both scripts
  return the same result, so the two output documents are identical byte for byte; the
  output file is never read because the filter rejects its name.
\<close>

theorem rerun_same_output:
  "merge_code_merge_files cwd (es1 @ FileE OUTPUT_FILE c # es2) =
     merge_code_merge_files cwd (es1 @ FileE OUTPUT_FILE c' # es2) \<and>
   merge_code_merge_files cwd (es1 @ FileE OUTPUT_FILE c # es2) =
     merge_code_merge_files cwd (es1 @ es2) \<and>
   mergecode_merge_files cwd (es1 @ FileE OUTPUT_FILE c # es2) =
     mergecode_merge_files cwd (es1 @ FileE OUTPUT_FILE c' # es2) \<and>
   mergecode_merge_files cwd (es1 @ FileE OUTPUT_FILE c # es2) =
     mergecode_merge_files cwd (es1 @ es2) \<and>
   \<not> is_included merge_code_ALLOWED_EXTENSIONS OUTPUT_FILE \<and>
   \<not> is_included mergecode_ALLOWED_EXTENSIONS OUTPUT_FILE"
proof -
  have s1: "strip merge_code_ALLOWED_EXTENSIONS (es1 @ FileE OUTPUT_FILE x # es2) =
      strip merge_code_ALLOWED_EXTENSIONS (es1 @ es2)" for x
    by (simp add: strip_append output_file_excluded)
  have s2: "strip mergecode_ALLOWED_EXTENSIONS (es1 @ FileE OUTPUT_FILE x # es2) =
      strip mergecode_ALLOWED_EXTENSIONS (es1 @ es2)" for x
    by (simp add: strip_append output_file_excluded)
  have m1: "merge_code_merge_files cwd (es1 @ FileE OUTPUT_FILE x # es2) =
      merge_code_merge_files cwd (es1 @ es2)" for x
    using merge_code_strip[of cwd "es1 @ FileE OUTPUT_FILE x # es2"]
      merge_code_strip[of cwd "es1 @ es2"] s1[of x] by simp
  have m2: "mergecode_merge_files cwd (es1 @ FileE OUTPUT_FILE x # es2) =
      mergecode_merge_files cwd (es1 @ es2)" for x
    using mergecode_strip[of cwd "es1 @ FileE OUTPUT_FILE x # es2"]
      mergecode_strip[of cwd "es1 @ es2"] s2[of x] by simp
  show ?thesis by (simp add: m1 m2 output_file_excluded)
qed

theorem rerun_same_output_witness:
  "merge_code_merge_files ''/r''
     ([FileE ''a.swift'' (Readable ''A'')] @ FileE OUTPUT_FILE (Readable []) # [DirE ''src'' []]) =
   merge_code_merge_files ''/r''
     ([FileE ''a.swift'' (Readable ''A'')] @
      FileE OUTPUT_FILE (Readable (''\<newline>'' @ separator @ ''\<newline>FILE: a.swift\<newline>'' @ separator @
                                   ''\<newline>\<newline>A\<newline>'')) # [DirE ''src'' []]) \<and>
   document (merge_code_merge_files ''/r''
     ([FileE ''a.swift'' (Readable ''A'')] @ FileE OUTPUT_FILE (Readable []) # [DirE ''src'' []])) =
   Inr (''\<newline>'' @ separator @ ''\<newline>FILE: a.swift\<newline>'' @ separator @ ''\<newline>\<newline>A\<newline>'')"
proof -
  have d: "document (merge_code_merge_files ''/r''
     ([FileE ''a.swift'' (Readable ''A'')] @ FileE OUTPUT_FILE (Readable []) # [DirE ''src'' []])) =
   Inr (''\<newline>'' @ separator @ ''\<newline>FILE: a.swift\<newline>'' @ separator @ ''\<newline>\<newline>A\<newline>'')"
    by code_simp
  show ?thesis
    using rerun_same_output[of "''/r''" "[FileE ''a.swift'' (Readable ''A'')]" "Readable []"
        "[DirE ''src'' []]"
        "Readable (''\<newline>'' @ separator @ ''\<newline>FILE: a.swift\<newline>'' @ separator @ ''\<newline>\<newline>A\<newline>'')"] d
    by blast
qed

subsection \<open>C9: the output file is never an input\<close>

text \<open>
  C9: the extension of \<^verbatim>\<open>FullProjectSource.txt\<close> is \<^verbatim>\<open>.txt\<close>, which is in neither
  allow-set.  No included file is named \<^verbatim>\<open>FullProjectSource.txt\<close>, and the document of a
  run that returns is made of the blocks of the included files: no block is written for
  the output file, wherever a file of that name lies.  Every run, whether it returns or
  ends with an exception, is the run on the stripped tree, which holds no file of that
  name at any path \<open>q\<close>.
\<close>

theorem output_file_not_input:
  assumes "wf_root rc" and "wf_tree es"
  shows "snd (splitext OUTPUT_FILE) = ''.txt'' \<and>
     ''.txt'' \<notin> merge_code_ALLOWED_EXTENSIONS \<and> ''.txt'' \<notin> mergecode_ALLOWED_EXTENSIONS \<and>
     (encodable_tree (strip merge_code_ALLOWED_EXTENSIONS es) \<longrightarrow>
        document (merge_code_merge_files (abs_path rc) es) =
          Inr (concat (map merge_code_block (included_files merge_code_ALLOWED_EXTENSIONS [] es)))) \<and>
     (encodable_tree (strip mergecode_ALLOWED_EXTENSIONS es) \<and> is_utf8 (basename (abs_path rc)) \<longrightarrow>
        document (mergecode_merge_files (abs_path rc) es) =
          Inr (structure_section (abs_path rc) es @
               concat (map mergecode_block (included_files mergecode_ALLOWED_EXTENSIONS [] es)))) \<and>
     ((p, c) \<in> set (included_files merge_code_ALLOWED_EXTENSIONS [] es) \<longrightarrow> last p \<noteq> OUTPUT_FILE) \<and>
     ((p, c) \<in> set (included_files mergecode_ALLOWED_EXTENSIONS [] es) \<longrightarrow> last p \<noteq> OUTPUT_FILE) \<and>
     merge_code_merge_files (abs_path rc) es =
       merge_code_merge_files (abs_path rc) (strip merge_code_ALLOWED_EXTENSIONS es) \<and>
     lookup_path (strip merge_code_ALLOWED_EXTENSIONS es) (q @ [OUTPUT_FILE]) = None \<and>
     mergecode_merge_files (abs_path rc) es =
       mergecode_merge_files (abs_path rc) (strip mergecode_ALLOWED_EXTENSIONS es) \<and>
     lookup_path (strip mergecode_ALLOWED_EXTENSIONS es) (q @ [OUTPUT_FILE]) = None"
proof -
  have a: "''.txt'' \<notin> merge_code_ALLOWED_EXTENSIONS" "''.txt'' \<notin> mergecode_ALLOWED_EXTENSIONS"
    by (simp_all add: merge_code_ALLOWED_EXTENSIONS_def mergecode_ALLOWED_EXTENSIONS_def)
  have n1: "last p \<noteq> OUTPUT_FILE" if "(p, c) \<in> set (included_files merge_code_ALLOWED_EXTENSIONS [] es)"
    using that included_files_iff[OF assms(2), of p c merge_code_ALLOWED_EXTENSIONS "[]"]
      output_file_excluded(1) by auto
  have n2: "last p \<noteq> OUTPUT_FILE" if "(p, c) \<in> set (included_files mergecode_ALLOWED_EXTENSIONS [] es)"
    using that included_files_iff[OF assms(2), of p c mergecode_ALLOWED_EXTENSIONS "[]"]
      output_file_excluded(2) by auto
  have d1: "document (merge_code_merge_files (abs_path rc) es) =
       Inr (concat (map merge_code_block (included_files merge_code_ALLOWED_EXTENSIONS [] es)))"
    if "encodable_tree (strip merge_code_ALLOWED_EXTENSIONS es)"
    by (simp add: document_def merge_code_run[OF assms that])
  have d2: "document (mergecode_merge_files (abs_path rc) es) =
       Inr (structure_section (abs_path rc) es @
            concat (map mergecode_block (included_files mergecode_ALLOWED_EXTENSIONS [] es)))"
    if "encodable_tree (strip mergecode_ALLOWED_EXTENSIONS es)" "is_utf8 (basename (abs_path rc))"
    by (simp add: document_def mergecode_run[OF assms that])
  have l1: "lookup_path (strip merge_code_ALLOWED_EXTENSIONS es) (q @ [OUTPUT_FILE]) = None"
    by (simp add: lookup_path_strip output_file_excluded(1))
  have l2: "lookup_path (strip mergecode_ALLOWED_EXTENSIONS es) (q @ [OUTPUT_FILE]) = None"
    by (simp add: lookup_path_strip output_file_excluded(2))
  have s1: "merge_code_merge_files (abs_path rc) es =
       merge_code_merge_files (abs_path rc) (strip merge_code_ALLOWED_EXTENSIONS es)"
    by (simp only: merge_code_strip)
  have s2: "mergecode_merge_files (abs_path rc) es =
       mergecode_merge_files (abs_path rc) (strip mergecode_ALLOWED_EXTENSIONS es)"
    by (simp only: mergecode_strip)
  show ?thesis
    using n1 n2 a d1 d2 l1 l2 s1 s2 output_file_excluded(3) by blast
qed

theorem output_file_not_input_witness:
  "wf_root [''r''] \<and>
   wf_tree [FileE OUTPUT_FILE (Readable ''old''), FileE ''a.swift'' (Readable ''A'')] \<and>
   encodable_tree (strip merge_code_ALLOWED_EXTENSIONS
      [FileE OUTPUT_FILE (Readable ''old''), FileE ''a.swift'' (Readable ''A'')]) \<and>
   encodable_tree (strip mergecode_ALLOWED_EXTENSIONS
      [FileE OUTPUT_FILE (Readable ''old''), FileE ''a.swift'' (Readable ''A'')]) \<and>
   is_utf8 (basename ''/r'') \<and>
   document (merge_code_merge_files ''/r''
      [FileE OUTPUT_FILE (Readable ''old''), FileE ''a.swift'' (Readable ''A'')]) =
     Inr (merge_code_block ([''a.swift''], Readable ''A'')) \<and>
   document (mergecode_merge_files ''/r''
      [FileE OUTPUT_FILE (Readable ''old''), FileE ''a.swift'' (Readable ''A'')]) =
     Inr (structure_section ''/r''
             [FileE OUTPUT_FILE (Readable ''old''), FileE ''a.swift'' (Readable ''A'')] @
          mergecode_block ([''a.swift''], Readable ''A'')) \<and>
   ([''a.swift''], Readable ''A'') \<in> set (included_files merge_code_ALLOWED_EXTENSIONS []
      [FileE OUTPUT_FILE (Readable ''old''), FileE ''a.swift'' (Readable ''A'')]) \<and>
   last [''a.swift''] \<noteq> OUTPUT_FILE"
proof -
  let ?es = "[FileE OUTPUT_FILE (Readable ''old''), FileE ''a.swift'' (Readable ''A'')]"
  have r: "wf_root [''r'']" by code_simp
  have w: "wf_tree ?es" by code_simp
  have e: "encodable_tree (strip merge_code_ALLOWED_EXTENSIONS ?es)"
    "encodable_tree (strip mergecode_ALLOWED_EXTENSIONS ?es)"
    "is_utf8 (basename ''/r'')" by code_simp+
  have i: "included_files merge_code_ALLOWED_EXTENSIONS [] ?es = [([''a.swift''], Readable ''A'')]"
    "included_files mergecode_ALLOWED_EXTENSIONS [] ?es = [([''a.swift''], Readable ''A'')]"
    by code_simp+
  have a: "abs_path [''r''] = ''/r''" by (simp add: abs_path_def)
  have n: "last [''a.swift''] \<noteq> OUTPUT_FILE" by (simp add: OUTPUT_FILE_def)
  note t = output_file_not_input[OF r w, of "[''a.swift'']" "Readable ''A''" "[]", unfolded a]
  have d1: "document (merge_code_merge_files ''/r'' ?es) =
      Inr (concat (map merge_code_block (included_files merge_code_ALLOWED_EXTENSIONS [] ?es)))"
    using t e(1) by blast
  have d2: "document (mergecode_merge_files ''/r'' ?es) =
      Inr (structure_section ''/r'' ?es @
           concat (map mergecode_block (included_files mergecode_ALLOWED_EXTENSIONS [] ?es)))"
    using t e(2,3) by blast
  have m: "([''a.swift''], Readable ''A'') \<in> set (included_files merge_code_ALLOWED_EXTENSIONS [] ?es)"
    by (simp add: i)
  show ?thesis
    using r w e n d1 d2 m by (simp add: i)
qed

subsection \<open>C10: the root is not subject to the ignore-set\<close>

text \<open>
  C10 says that, for every directory tree, the root is visited first and the files directly
  in the root with an allowed extension are always included, also when the base name of
  the root is in the ignore-set.  The root is visited whatever its name, but a file in it
  is not always included: in a root named \<^verbatim>\<open>build\<close> that holds a file whose name passes
  the filter and is not well-formed UTF-8, followed by \<^verbatim>\<open>b.swift\<close>, either script ends with
  \<^verbatim>\<open>UnicodeEncodeError\<close> at the first name, \<^verbatim>\<open>merge_code.py\<close> in the header and
  \<^verbatim>\<open>mergecode.py\<close> in the structure section, and nothing is written for \<^verbatim>\<open>b.swift\<close>.
\<close>

theorem root_file_after_unencodable_name:
  "basename ''/build'' \<in> IGNORE_DIRS \<and>
   is_included merge_code_ALLOWED_EXTENSIONS ''b.swift'' \<and>
   is_included mergecode_ALLOWED_EXTENSIONS ''b.swift'' \<and>
   merge_code_merge_files ''/build''
       [FileE (CHR 0x80 # ''a.swift'') (Readable ''A''), FileE ''b.swift'' (Readable ''B'')] =
     Inl (UnicodeEncodeError (''FILE: '' @ CHR 0x80 # ''a.swift\<newline>''),
          \<lparr>outfile = ''\<newline>'' @ separator @ ''\<newline>'', stdout = []\<rparr>) \<and>
   mergecode_merge_files ''/build''
       [FileE (CHR 0x80 # ''a.swift'') (Readable ''A''), FileE ''b.swift'' (Readable ''B'')] =
     Inl (UnicodeEncodeError (''    '' @ CHR 0x80 # ''a.swift\<newline>''),
          \<lparr>outfile = ''PROJECT STRUCTURE:\<newline>==================\<newline>build/\<newline>'',
           stdout = [''Generating folder structure...'']\<rparr>)"
  by code_simp

text \<open>
  C10 as amended: the ignore-set is applied to the names of subdirectories only.  The
  first directory the walk yields is the root, whatever its name, and every file that lies
  directly in the root and passes the filter is among the included files; when the names
  of the tree are writable, the blocks of the included files make up the document.  The
  structure section of \<^verbatim>\<open>mergecode.py\<close> starts with the line of the root and the lines
  of these files.  This holds also for a root named \<^verbatim>\<open>build\<close>.
\<close>

theorem root_always_visited:
  assumes "wf_root rc" and "wf_tree es"
  shows "hd (walk prune_ignored (abs_path rc) es) =
       (abs_path rc, prune_ignored (dirs_of es), nondirs_of es) \<and>
     (encodable_tree (strip merge_code_ALLOWED_EXTENSIONS es) \<longrightarrow>
        document (merge_code_merge_files (abs_path rc) es) =
          Inr (concat (map merge_code_block (included_files merge_code_ALLOWED_EXTENSIONS [] es)))) \<and>
     (encodable_tree (strip mergecode_ALLOWED_EXTENSIONS es) \<and> is_utf8 (basename (abs_path rc)) \<longrightarrow>
        document (mergecode_merge_files (abs_path rc) es) =
          Inr (structure_section (abs_path rc) es @
               concat (map mergecode_block (included_files mergecode_ALLOWED_EXTENSIONS [] es)))) \<and>
     ((n, c) \<in> set (nondirs_of es) \<and> is_included A n \<longrightarrow>
        ([n], c) \<in> set (included_files A [] es)) \<and>
     (\<exists>rest. structure_section (abs_path rc) es =
        ''PROJECT STRUCTURE:\<newline>==================\<newline>'' @ basename (abs_path rc) @ ''/\<newline>'' @
        concat (map (\<lambda>f. ''    '' @ fst f @ ''\<newline>'')
                    (filter (\<lambda>f. is_included mergecode_ALLOWED_EXTENSIONS (fst f)) (nondirs_of es))) @
        rest)"
proof -
  have ne: "abs_path rc \<noteq> []" by (simp add: abs_path_def)
  note st = structure_starts_with_root[OF ne, of es]
  have h: "hd (walk prune_ignored (abs_path rc) es) =
       (abs_path rc, prune_ignored (dirs_of es), nondirs_of es)"
    by (subst walk.simps) (simp add: Let_def)
  have i: "([n], c) \<in> set (included_files A [] es)"
    if "(n, c) \<in> set (nondirs_of es)" "is_included A n"
    using that by (subst set_included_files) force
  have d1: "document (merge_code_merge_files (abs_path rc) es) =
       Inr (concat (map merge_code_block (included_files merge_code_ALLOWED_EXTENSIONS [] es)))"
    if "encodable_tree (strip merge_code_ALLOWED_EXTENSIONS es)"
    by (simp add: document_def merge_code_run[OF assms that])
  have d2: "document (mergecode_merge_files (abs_path rc) es) =
       Inr (structure_section (abs_path rc) es @
            concat (map mergecode_block (included_files mergecode_ALLOWED_EXTENSIONS [] es)))"
    if "encodable_tree (strip mergecode_ALLOWED_EXTENSIONS es)" "is_utf8 (basename (abs_path rc))"
    by (simp add: document_def mergecode_run[OF assms that])
  show ?thesis
    using h i d1 d2 st by blast
qed

theorem root_always_visited_witness:
  "wf_root [''build''] \<and> wf_tree [FileE ''main.swift'' (Readable ''A'')] \<and>
   encodable_tree (strip merge_code_ALLOWED_EXTENSIONS [FileE ''main.swift'' (Readable ''A'')]) \<and>
   encodable_tree (strip mergecode_ALLOWED_EXTENSIONS [FileE ''main.swift'' (Readable ''A'')]) \<and>
   is_utf8 (basename ''/build'') \<and>
   basename ''/build'' \<in> IGNORE_DIRS \<and>
   hd (walk prune_ignored ''/build'' [FileE ''main.swift'' (Readable ''A'')]) =
     (''/build'', [], [(''main.swift'', Readable ''A'')]) \<and>
   document (merge_code_merge_files ''/build'' [FileE ''main.swift'' (Readable ''A'')]) =
     Inr (merge_code_block ([''main.swift''], Readable ''A'')) \<and>
   document (mergecode_merge_files ''/build'' [FileE ''main.swift'' (Readable ''A'')]) =
     Inr (structure_section ''/build'' [FileE ''main.swift'' (Readable ''A'')] @
          mergecode_block ([''main.swift''], Readable ''A'')) \<and>
   structure_section ''/build'' [FileE ''main.swift'' (Readable ''A'')] =
     ''PROJECT STRUCTURE:\<newline>==================\<newline>build/\<newline>    main.swift\<newline>\<newline>\<newline>''"
proof -
  have o: "structure_section ''/build'' [FileE ''main.swift'' (Readable ''A'')] =
     ''PROJECT STRUCTURE:\<newline>==================\<newline>build/\<newline>    main.swift\<newline>\<newline>\<newline>''"
    by code_simp
  let ?es = "[FileE ''main.swift'' (Readable ''A'')]"
  have r: "wf_root [''build'']" by code_simp
  have w: "wf_tree ?es" by code_simp
  have e: "encodable_tree (strip merge_code_ALLOWED_EXTENSIONS ?es)"
    "encodable_tree (strip mergecode_ALLOWED_EXTENSIONS ?es)"
    "is_utf8 (basename ''/build'')" by code_simp+
  have b: "basename ''/build'' \<in> IGNORE_DIRS" by code_simp
  have i: "included_files merge_code_ALLOWED_EXTENSIONS [] ?es = [([''main.swift''], Readable ''A'')]"
    "included_files mergecode_ALLOWED_EXTENSIONS [] ?es = [([''main.swift''], Readable ''A'')]"
    by code_simp+
  have p: "prune_ignored [] = []" by (simp add: prune_ignored_def)
  have a: "abs_path [''build''] = ''/build''" by (simp add: abs_path_def)
  show ?thesis
    using root_always_visited[OF r w] r w b e by (simp add: i a p o)
qed

end
